theory Spec2Isabelle
  imports Main "HOL-Library.Word"
begin

section \<open>The Sniphub snippet provider (src/sniphubProvider.ts)\<close>

text \<open>
  A shallow embedding of \<^verbatim>\<open>sniphubProvider.ts\<close>. JavaScript strings are sequences of
  UTF-16 code units and \<^verbatim>\<open>length\<close> counts code units, so a string is a list of 16-bit
  words. A field that can hold \<^verbatim>\<open>undefined\<close> is an \<open>option\<close> (\<open>None\<close> is
  \<^verbatim>\<open>undefined\<close>). A thrown exception or rejected promise is \<open>Inl\<close> of an \<open>error\<close>.
  The methods inherited from \<^verbatim>\<open>BaseProvider\<close> (\<^verbatim>\<open>getFiletypes\<close>, \<^verbatim>\<open>checkContext\<close>), the
  regular-expression engine and the host document are arguments of the functions that
  use them.
\<close>

subsection \<open>Strings\<close>

type_synonym codeunit = "16 word"
type_synonym jsstr = "codeunit list"

definition utf16 :: "string \<Rightarrow> jsstr" where
  "utf16 cs = map (\<lambda>c. word_of_nat (of_char c)) cs"

definition isWhiteSpace :: "codeunit \<Rightarrow> bool" where
  \<comment> \<open>ECMAScript WhiteSpace and LineTerminator: what \<^verbatim>\<open>\s\<close> matches and \<^verbatim>\<open>trim\<close> strips.\<close>
  "isWhiteSpace c =
     (c = 0x9 \<or> c = 0xA \<or> c = 0xB \<or> c = 0xC \<or> c = 0xD \<or> c = 0x20 \<or> c = 0xA0
      \<or> c = 0x1680 \<or> (0x2000 \<le> c \<and> c \<le> 0x200A) \<or> c = 0x2028 \<or> c = 0x2029
      \<or> c = 0x202F \<or> c = 0x205F \<or> c = 0x3000 \<or> c = 0xFEFF)"

definition trim :: "jsstr \<Rightarrow> jsstr" where
  \<comment> \<open>\<^verbatim>\<open>String.prototype.trim\<close>\<close>
  "trim s = rev (dropWhile isWhiteSpace (rev (dropWhile isWhiteSpace s)))"

definition endsWith :: "jsstr \<Rightarrow> jsstr \<Rightarrow> bool" where
  \<comment> \<open>\<^verbatim>\<open>String.prototype.endsWith\<close> with a string argument and no end position\<close>
  "endsWith s t = (length t \<le> length s \<and> drop (length s - length t) s = t)"

definition toString :: "jsstr option \<Rightarrow> jsstr" where
  \<comment> \<open>\<^verbatim>\<open>ToString\<close> of a string or of \<^verbatim>\<open>undefined\<close>\<close>
  "toString v = (case v of None \<Rightarrow> utf16 ''undefined'' | Some s \<Rightarrow> s)"

definition slice0 :: "jsstr \<Rightarrow> int \<Rightarrow> jsstr" where
  \<comment> \<open>\<^verbatim>\<open>s.slice(0, e)\<close>: a negative end counts from the end of the string\<close>
  "slice0 s e =
     (let len = int (length s);
          to = (if e < 0 then max (len + e) 0 else min e len)
      in take (nat to) s)"

definition endsInSpace :: "jsstr \<Rightarrow> bool" where
  \<comment> \<open>\<^verbatim>\<open>/\s$/.test(pre)\<close>\<close>
  "endsInSpace s = (case rev s of [] \<Rightarrow> False | c # _ \<Rightarrow> isWhiteSpace c)"

definition truthyStr :: "jsstr option \<Rightarrow> bool" where
  \<comment> \<open>truthiness of an optional string: \<^verbatim>\<open>undefined\<close> and \<^verbatim>\<open>''\<close> are falsy\<close>
  "truthyStr v = (case v of None \<Rightarrow> False | Some s \<Rightarrow> s \<noteq> [])"

definition truthyBool :: "bool option \<Rightarrow> bool" where
  "truthyBool v = (case v of None \<Rightarrow> False | Some b \<Rightarrow> b)"

subsection \<open>Data model\<close>

datatype error = TypeError | SyntaxError | StatusError int | RequestError | HostError
  | InvalidArguments

text \<open>
  Modelled from the spec: the enum \<^verbatim>\<open>TriggerKind\<close> of \<^verbatim>\<open>types.ts\<close>, which is not among
  the sources; the spec gives its four members.
\<close>

datatype TriggerKind = InWord | LineBegin | SpaceBefore | WordBoundary

text \<open>
  Modelled from the spec: the interfaces \<^verbatim>\<open>Snippet\<close> and \<^verbatim>\<open>SnippetEdit\<close> of \<^verbatim>\<open>types.ts\<close>,
  with the fields the provider reads and writes. \<open>'rx\<close> is the type of compiled regular
  expressions. The fields \<^verbatim>\<open>range\<close>, \<^verbatim>\<open>prefix\<close>, \<^verbatim>\<open>description\<close>, \<^verbatim>\<open>priority\<close>, \<^verbatim>\<open>regex\<close> and
  \<^verbatim>\<open>context\<close> of an edit are written \<open>edit_range\<close>, \<open>edit_prefix\<close> and so on, apart from
  the snippet's fields of the same names. \<^verbatim>\<open>Position\<close>, \<^verbatim>\<open>Range\<close> and \<^verbatim>\<open>Document\<close> are the
  host editor's: a position is a line and a character offset, both numbers, and
  \<^verbatim>\<open>Range.create\<close> validates its four arguments before it builds the range.
\<close>

record 'rx Snippet =
  filepath :: "jsstr option"
  lnum :: int
  body :: "jsstr option"
  prefix :: "jsstr option"
  description :: "jsstr option"
  triggerKind :: TriggerKind
  filetype :: "jsstr option"
  regex :: "'rx option"
  originRegex :: "jsstr option"
  autoTrigger :: "bool option"
  "context" :: "jsstr option"
  priority :: "int option"

record Position =
  line :: int
  character :: int

record Range =
  start :: Position
  "end" :: Position

record SnippetEdit =
  edit_range :: Range
  newText :: "jsstr option"
  edit_prefix :: "jsstr option"
  edit_description :: "jsstr option"
  location :: "jsstr option"
  edit_priority :: "int option"
  edit_regex :: "jsstr option"
  edit_context :: "jsstr option"

record Document =
  doc_filetype :: jsstr
  getline :: "int \<Rightarrow> jsstr"
  isWord :: "codeunit \<Rightarrow> bool"

definition isUinteger :: "int \<Rightarrow> bool" where
  \<comment> \<open>the host's test for an unsigned integer: a number from 0 to 2147483647\<close>
  "isUinteger v = (0 \<le> v \<and> v \<le> 2147483647)"

definition Range_create :: "int \<Rightarrow> int \<Rightarrow> int \<Rightarrow> int \<Rightarrow> error + Range" where
  \<comment> \<open>\<^verbatim>\<open>Range.create\<close> with four numbers: it throws unless each is an unsigned integer\<close>
  "Range_create l1 c1 l2 c2 =
     (if isUinteger l1 \<and> isUinteger c1 \<and> isUinteger l2 \<and> isUinteger c2
      then Inr \<lparr>start = \<lparr>line = l1, character = c1\<rparr>, end = \<lparr>line = l2, character = c2\<rparr>\<rparr>
      else Inl InvalidArguments)"

subsection \<open>Trigger matching\<close>

definition getMatched :: "('rx \<Rightarrow> jsstr \<Rightarrow> jsstr option) \<Rightarrow> 'rx Snippet \<Rightarrow> jsstr \<Rightarrow> jsstr option" where
  \<comment> \<open>\<open>rxmatch r l\<close> is \<^verbatim>\<open>l.match(r)\<close>: \<open>None\<close> for no match, else the element \<^verbatim>\<open>[0]\<close>\<close>
  "getMatched rxmatch snippet ln =
     (case regex snippet of
        Some r \<Rightarrow> (case rxmatch r ln of None \<Rightarrow> None | Some m \<Rightarrow> Some m)
      | None \<Rightarrow> if \<not> endsWith ln (toString (prefix snippet)) then None else prefix snippet)"

definition triggerFilter ::
  "('rx \<Rightarrow> jsstr \<Rightarrow> jsstr option) \<Rightarrow> Document \<Rightarrow> bool option \<Rightarrow> jsstr \<Rightarrow> 'rx Snippet \<Rightarrow> bool" where
  \<comment> \<open>the callback given to \<^verbatim>\<open>filter\<close> in \<^verbatim>\<open>getTriggerSnippets\<close>\<close>
  "triggerFilter rxmatch document autoTrig ln s =
     (if truthyBool autoTrig \<and> \<not> truthyBool (autoTrigger s) then False
      else case getMatched rxmatch s ln of
        None \<Rightarrow> False
      | Some match \<Rightarrow>
          if triggerKind s = InWord then True
          else let pre = slice0 ln (int (length ln) - int (length match)) in
            if triggerKind s = LineBegin then trim pre = []
            else if triggerKind s = SpaceBefore then length pre = 0 \<or> endsInSpace pre
            else if triggerKind s = WordBoundary then length pre = 0 \<or> \<not> isWord document (last pre)
            else False)"

subsection \<open>Ordering the candidates\<close>

definition compareContext :: "'rx Snippet \<Rightarrow> 'rx Snippet \<Rightarrow> int" where
  \<comment> \<open>the comparator given to \<^verbatim>\<open>sort\<close>\<close>
  "compareContext a b =
     (if truthyStr (context a) \<and> \<not> truthyStr (context b) then -1
      else if truthyStr (context b) \<and> \<not> truthyStr (context a) then 1
      else 0)"

text \<open>
  \<^verbatim>\<open>Array.prototype.sort\<close> is stable (ECMAScript 2019): elements that compare equal keep
  their order. It is modelled by a stable insertion sort, for any comparator.
\<close>

fun sortInsert :: "('a \<Rightarrow> 'a \<Rightarrow> int) \<Rightarrow> 'a \<Rightarrow> 'a list \<Rightarrow> 'a list" where
  "sortInsert cmp x [] = [x]"
| "sortInsert cmp x (y # ys) = (if cmp x y \<le> 0 then x # y # ys else y # sortInsert cmp x ys)"

fun arraySort :: "('a \<Rightarrow> 'a \<Rightarrow> int) \<Rightarrow> 'a list \<Rightarrow> 'a list" where
  "arraySort cmp [] = []"
| "arraySort cmp (x # xs) = sortInsert cmp x (arraySort cmp xs)"

subsection \<open>The candidate walk\<close>

definition startCharacter ::
  "('rx \<Rightarrow> jsstr \<Rightarrow> jsstr option) \<Rightarrow> jsstr \<Rightarrow> Position \<Rightarrow> 'rx Snippet \<Rightarrow> error + int" where
  \<comment> \<open>the start column; reading \<^verbatim>\<open>length\<close> of \<^verbatim>\<open>undefined\<close> or \<^verbatim>\<open>[0]\<close> of \<^verbatim>\<open>null\<close> throws\<close>
  "startCharacter rxmatch ln position s =
     (case regex s of
        None \<Rightarrow> (case prefix s of
                   None \<Rightarrow> Inl TypeError
                 | Some p \<Rightarrow> Inr (character position - int (length p)))
      | Some r \<Rightarrow> (case rxmatch r ln of
                     None \<Rightarrow> Inl TypeError
                   | Some m \<Rightarrow> Inr (character position - int (length m))))"

definition editOf :: "Range \<Rightarrow> 'rx Snippet \<Rightarrow> SnippetEdit" where
  \<comment> \<open>the object literal pushed onto \<^verbatim>\<open>edits\<close>\<close>
  "editOf r s =
     \<lparr>edit_range = r,
      newText = body s,
      edit_prefix = prefix s,
      edit_description = description s,
      location = filepath s,
      edit_priority = priority s,
      edit_regex = originRegex s,
      edit_context = context s\<rparr>"

definition makeEdit :: "Position \<Rightarrow> int \<Rightarrow> 'rx Snippet \<Rightarrow> SnippetEdit" where
  \<comment> \<open>the edit of a snippet whose range runs from column \<open>c\<close> to the position, on its line\<close>
  "makeEdit position c s =
     editOf \<lparr>start = \<lparr>line = line position, character = c\<rparr>,
             end = \<lparr>line = line position, character = character position\<rparr>\<rparr> s"

definition pushEdit ::
  "('rx \<Rightarrow> jsstr \<Rightarrow> jsstr option) \<Rightarrow> jsstr \<Rightarrow> Position \<Rightarrow> 'rx Snippet
     \<Rightarrow> error + SnippetEdit list \<Rightarrow> error + SnippetEdit list" where
  \<comment> \<open>the loop body after the context test, followed by the rest of the loop\<close>
  "pushEdit rxmatch ln position s rest =
     (case startCharacter rxmatch ln position s of
        Inl e \<Rightarrow> Inl e
      | Inr c \<Rightarrow>
          (case Range_create (line position) c (line position) (character position) of
             Inl e \<Rightarrow> Inl e
           | Inr r \<Rightarrow> (case rest of
                         Inl e \<Rightarrow> Inl e
                       | Inr edits \<Rightarrow> Inr (editOf r s # edits))))"

fun walk ::
  "(jsstr \<Rightarrow> error + bool) \<Rightarrow> ('rx \<Rightarrow> jsstr \<Rightarrow> jsstr option) \<Rightarrow> jsstr \<Rightarrow> Position
     \<Rightarrow> bool \<Rightarrow> 'rx Snippet list \<Rightarrow> error + SnippetEdit list" where
  \<comment> \<open>the \<^verbatim>\<open>for\<close> loop of \<^verbatim>\<open>getTriggerSnippets\<close>; the flag is \<^verbatim>\<open>hasContext\<close>\<close>
  "walk checkContext rxmatch ln position hasContext [] = Inr []"
| "walk checkContext rxmatch ln position hasContext (s # ss) =
     (if truthyStr (context s) then
        (case checkContext (toString (context s)) of
           Inl e \<Rightarrow> Inl e
         | Inr valid \<Rightarrow>
             if \<not> valid then walk checkContext rxmatch ln position hasContext ss
             else pushEdit rxmatch ln position s (walk checkContext rxmatch ln position True ss))
      else if hasContext then Inr []
      else pushEdit rxmatch ln position s (walk checkContext rxmatch ln position hasContext ss))"

subsection \<open>The catalog\<close>

record SnippetContent =
  content :: jsstr
  created_at :: jsstr
  content_id :: jsstr
  language :: jsstr
  name :: jsstr
  "public" :: bool
  updated_at :: jsstr

text \<open>
  The field \<^verbatim>\<open>id\<close> of a remote record is written \<open>content_id\<close>.
  An element of \<^verbatim>\<open>sniphubItems\<close> is a record of the remote store or, after
  \<^verbatim>\<open>createSnippet\<close>, the array of body chunks that its request resolved with (its
  \<^verbatim>\<open>onEnd\<close> resolves with the chunks unparsed). Every property the provider reads of
  such an array is \<^verbatim>\<open>undefined\<close>.
\<close>

datatype item = Content SnippetContent | Chunks "8 word list list"

fun item_id :: "item \<Rightarrow> jsstr option" where
  "item_id (Content c) = Some (content_id c)"
| "item_id (Chunks b) = None"

fun item_content :: "item \<Rightarrow> jsstr option" where
  "item_content (Content c) = Some (content c)"
| "item_content (Chunks b) = None"

fun item_name :: "item \<Rightarrow> jsstr option" where
  "item_name (Content c) = Some (name c)"
| "item_name (Chunks b) = None"

fun item_language :: "item \<Rightarrow> jsstr option" where
  "item_language (Content c) = Some (language c)"
| "item_language (Chunks b) = None"

definition itemSnippet :: "int \<Rightarrow> item \<Rightarrow> 'rx Snippet" where
  \<comment> \<open>the object literal built in \<^verbatim>\<open>mapItems\<close>\<close>
  "itemSnippet counter it =
     \<lparr>filepath = item_id it,
      lnum = counter,
      body = item_content it,
      prefix = item_name it,
      description = item_name it,
      triggerKind = WordBoundary,
      filetype = item_language it,
      regex = None,
      originRegex = None,
      autoTrigger = None,
      context = None,
      priority = None\<rparr>"

fun mapFrom :: "int \<Rightarrow> item list \<Rightarrow> 'rx Snippet list" where
  "mapFrom counter [] = []"
| "mapFrom counter (it # its) = itemSnippet counter it # mapFrom (counter + 1) its"

definition mapItems :: "item list option \<Rightarrow> error + 'rx Snippet list" where
  \<comment> \<open>the argument is the field \<^verbatim>\<open>sniphubItems\<close>; \<^verbatim>\<open>undefined.map\<close> throws\<close>
  "mapItems sniphubItems =
     (case sniphubItems of None \<Rightarrow> Inl TypeError | Some its \<Rightarrow> Inr (mapFrom 0 its))"

definition arrayIncludes :: "jsstr list \<Rightarrow> jsstr option \<Rightarrow> bool" where
  \<comment> \<open>\<^verbatim>\<open>Array.prototype.includes\<close> on an array of strings\<close>
  "arrayIncludes xs v = (case v of None \<Rightarrow> False | Some s \<Rightarrow> s \<in> set xs)"

definition getSnippets ::
  "(jsstr \<Rightarrow> jsstr list) \<Rightarrow> item list option \<Rightarrow> jsstr \<Rightarrow> error + 'rx Snippet list" where
  "getSnippets getFiletypes sniphubItems ft =
     (case mapItems sniphubItems of
        Inl e \<Rightarrow> Inl e
      | Inr snippets \<Rightarrow> Inr (filter (\<lambda>snippet. arrayIncludes (getFiletypes ft) (filetype snippet)) snippets))"

definition getSnippetFiles ::
  "(jsstr \<Rightarrow> jsstr list) \<Rightarrow> item list option \<Rightarrow> jsstr \<Rightarrow> error + jsstr option list" where
  "getSnippetFiles getFiletypes sniphubItems ft =
     (let filetypes = getFiletypes ft @ [utf16 ''all''] in
      case sniphubItems of
        None \<Rightarrow> Inl TypeError
      | Some its \<Rightarrow> Inr (map item_id (filter (\<lambda>snippet. arrayIncludes filetypes (item_language snippet)) its)))"

subsection \<open>getTriggerSnippets\<close>

definition triggerEdits ::
  "(jsstr \<Rightarrow> error + bool) \<Rightarrow> ('rx \<Rightarrow> jsstr \<Rightarrow> jsstr option) \<Rightarrow> error + 'rx Snippet list
     \<Rightarrow> Document \<Rightarrow> Position \<Rightarrow> bool option \<Rightarrow> error + SnippetEdit list" where
  \<comment> \<open>the body of \<^verbatim>\<open>getTriggerSnippets\<close>; \<open>snippetsOf\<close> is what
      \<^verbatim>\<open>this.getSnippets(document.filetype)\<close> evaluates to\<close>
  "triggerEdits checkContext rxmatch snippetsOf document position autoTrig =
     (if truthyBool autoTrig then Inr []
      else let ln = getline document (line position) in
        if length ln = 0 then Inr []
        else case snippetsOf of
          Inl e \<Rightarrow> Inl e
        | Inr available \<Rightarrow>
            walk checkContext rxmatch ln position False
              (arraySort compareContext (filter (triggerFilter rxmatch document autoTrig ln) available)))"

definition getTriggerSnippets ::
  "(jsstr \<Rightarrow> jsstr list) \<Rightarrow> (jsstr \<Rightarrow> error + bool) \<Rightarrow> ('rx \<Rightarrow> jsstr \<Rightarrow> jsstr option)
     \<Rightarrow> item list option \<Rightarrow> Document \<Rightarrow> Position \<Rightarrow> bool option \<Rightarrow> error + SnippetEdit list" where
  "getTriggerSnippets getFiletypes checkContext rxmatch sniphubItems document position autoTrig =
     triggerEdits checkContext rxmatch (getSnippets getFiletypes sniphubItems (doc_filetype document))
       document position autoTrig"

subsection \<open>The remote store\<close>

type_synonym buffer = "8 word list"

text \<open>
  Modelled from the spec: the interface \<^verbatim>\<open>SniphubConfig\<close> of \<^verbatim>\<open>types.ts\<close>, with the two
  options the spec names.
\<close>

record SniphubConfig =
  apiUrl :: jsstr
  apiToken :: "jsstr option"

record URL =
  href :: jsstr
  host :: jsstr
  port :: jsstr
  protocol :: jsstr

datatype Method = GET | POST

datatype headerValue = HStr jsstr | HNum int

record HttpConfig =
  cfg_headers :: "(jsstr \<rightharpoonup> headerValue) option"
  cfg_host :: "jsstr option"
  cfg_port :: "jsstr option"
  cfg_protocol :: "jsstr option"
  cfg_path :: "jsstr option"
  cfg_method :: "Method option"
  cfg_url :: "URL option"

record HttpResponseItem =
  snippets :: "SnippetContent list"

record NewSnippetRequest =
  req_content :: "jsstr option"
  req_name :: jsstr
  req_public :: bool
  req_language :: jsstr

record HttpRequest =
  req_url :: jsstr
  req_headers :: "jsstr \<rightharpoonup> headerValue"
  req_method :: "Method option"
  req_body :: "jsstr option"

datatype HttpReply = ConnectionError | Response int "buffer list"

datatype effect =
    Info jsstr
  | Sent HttpRequest
  | ConsoleLog
  | RequestInput jsstr
  | ShowMessage jsstr

text \<open>
  What the provider does not own: the URL parser, the network, the JSON codec, the
  current document and the input prompt. A stateful method takes the provider and
  returns its result, the provider as the method leaves it, and the effects in the
  order they happen: log lines, requests sent, prompts and messages.
\<close>

record platform =
  newURL :: "jsstr \<Rightarrow> error + URL"
  network :: "HttpRequest \<Rightarrow> HttpReply"
  jsonParse :: "buffer \<Rightarrow> error + HttpResponseItem"
  jsonStringify :: "NewSnippetRequest \<Rightarrow> jsstr"
  workspaceDocument :: Document
  windowRequestInput :: "jsstr \<Rightarrow> jsstr option"

record SniphubProvider =
  config :: SniphubConfig
  sniphubItems :: "item list option"
  baseHttpConfig :: "HttpConfig option"

definition spreadConfig :: "HttpConfig option \<Rightarrow> HttpConfig" where
  \<comment> \<open>\<^verbatim>\<open>{ ...this.baseHttpConfig }\<close>; spreading \<^verbatim>\<open>undefined\<close> gives the empty object\<close>
  "spreadConfig c =
     (case c of
        Some cfg \<Rightarrow> cfg
      | None \<Rightarrow> \<lparr>cfg_headers = None, cfg_host = None, cfg_port = None, cfg_protocol = None,
                  cfg_path = None, cfg_method = None, cfg_url = None\<rparr>)"

definition spreadHeaders :: "(jsstr \<rightharpoonup> headerValue) option \<Rightarrow> (jsstr \<rightharpoonup> headerValue)" where
  "spreadHeaders h = (case h of None \<Rightarrow> Map.empty | Some m \<Rightarrow> m)"

definition withToken :: "SniphubConfig \<Rightarrow> HttpConfig \<Rightarrow> HttpConfig" where
  \<comment> \<open>the bearer header, added when \<^verbatim>\<open>apiToken\<close> is truthy\<close>
  "withToken c options =
     (if truthyStr (apiToken c)
      then options\<lparr>cfg_headers :=
             Some ((spreadHeaders (cfg_headers options))
                     (utf16 ''Authorization'' \<mapsto> HStr (utf16 ''Bearer '' @ toString (apiToken c))))\<rparr>
      else options)"

definition promisifyHttpRequest ::
  "platform \<Rightarrow> HttpConfig \<Rightarrow> (buffer list \<Rightarrow> error + 'a) \<Rightarrow> jsstr option \<Rightarrow> (error + 'a) \<times> effect list" where
  \<comment> \<open>\<open>payload\<close> is the parameter \<^verbatim>\<open>body\<close>; reading \<^verbatim>\<open>length\<close> of \<^verbatim>\<open>undefined\<close> throws\<close>
  "promisifyHttpRequest h cfg onEnd payload =
     (let headers0 = spreadHeaders (cfg_headers cfg);
          isPost = (cfg_method cfg = Some POST)
      in if isPost \<and> payload = None then (Inl TypeError, [])
      else
        (let headers =
              (if isPost \<and> length (toString payload) \<noteq> 0
               then headers0(utf16 ''Accept'' \<mapsto> HStr (utf16 ''application/json''),
                             utf16 ''Content-Type'' \<mapsto> HStr (utf16 ''application/json''),
                             utf16 ''Content-Length'' \<mapsto> HNum (int (length (toString payload))))
               else headers0)
         in (case cfg_url cfg of
               None \<Rightarrow> (Inl TypeError, [])
             | Some url \<Rightarrow>
                 (let req = \<lparr>req_url = href url @ toString (cfg_path cfg), req_headers = headers,
                             req_method = cfg_method cfg,
                             req_body = (if truthyStr payload then payload else None)\<rparr>;
                      logged = (if truthyStr payload then [ConsoleLog] else [])
                  in (case network h req of
                        ConnectionError \<Rightarrow> (Inl RequestError, Sent req # logged @ [ConsoleLog])
                      | Response statusCode chunks \<Rightarrow>
                          if statusCode < 200 \<or> statusCode \<ge> 300
                          then (Inl (StatusError statusCode), Sent req # logged)
                          else (onEnd chunks, Sent req # logged))))))"

definition loadAllSnippets :: "platform \<Rightarrow> SniphubProvider \<Rightarrow> (error + HttpResponseItem) \<times> effect list" where
  "loadAllSnippets h this =
     (let msg = Info (utf16 ''Loading all sniphub snippets from '' @ apiUrl (config this) @ utf16 ''/snippets'');
          options = withToken (config this)
                      ((spreadConfig (baseHttpConfig this))\<lparr>cfg_path := Some (utf16 ''/snippets'')\<rparr>);
          (res, effs) = promisifyHttpRequest h options (\<lambda>chunks. jsonParse h (concat chunks)) None
      in (res, msg # effs))"

definition init :: "platform \<Rightarrow> SniphubProvider \<Rightarrow> (error + unit) \<times> SniphubProvider \<times> effect list" where
  "init h this =
     (case newURL h (apiUrl (config this)) of
        Inl e \<Rightarrow> (Inl e, this, [])
      | Inr url \<Rightarrow>
          (let this1 = this\<lparr>baseHttpConfig :=
                         Some \<lparr>cfg_headers = None, cfg_host = Some (host url), cfg_port = Some (port url),
                               cfg_protocol = Some (protocol url), cfg_path = None,
                               cfg_method = Some GET, cfg_url = Some url\<rparr>\<rparr>
           in (case loadAllSnippets h this1 of
                 (Inl e, effs) \<Rightarrow> (Inl e, this1, effs)
               | (Inr snippetResponse, effs) \<Rightarrow>
                   (Inr (), this1\<lparr>sniphubItems := Some (map Content (snippets snippetResponse))\<rparr>, effs))))"

definition createSnippet ::
  "platform \<Rightarrow> SniphubProvider \<Rightarrow> jsstr option
     \<Rightarrow> (error + buffer list option) \<times> SniphubProvider \<times> effect list" where
  "createSnippet h this text =
     (let doc = workspaceDocument h;
          nm = windowRequestInput h (utf16 ''Snippet Name'');
          asked = [RequestInput (utf16 ''Snippet Name'')]
      in if \<not> truthyStr nm then (Inr None, this, asked)
      else
       (case init h this of
          (Inl e, this1, effs) \<Rightarrow> (Inl e, this1, asked @ effs)
        | (Inr u, this1, effs) \<Rightarrow>
           (case mapItems (sniphubItems this1) :: error + unit Snippet list of
              Inl e \<Rightarrow> (Inl e, this1, asked @ effs)
            | Inr mapped \<Rightarrow>
                if list_ex (\<lambda>it. prefix it = nm \<and> filetype it = Some (doc_filetype doc)) mapped
                then (Inr None, this1,
                      asked @ effs @
                      [ShowMessage (utf16 ''Snippet with name '' @ toString nm
                                      @ utf16 '' for this filetype already exists'')])
                else
                  (let cfg = withToken (config this1)
                               ((spreadConfig (baseHttpConfig this1))
                                  \<lparr>cfg_method := Some POST, cfg_path := Some (utf16 ''/snippets'')\<rparr>);
                       newSnippetRequest = \<lparr>req_content = text, req_name = toString nm,
                                            req_public = True, req_language = doc_filetype doc\<rparr>
                   in (case promisifyHttpRequest h cfg (\<lambda>chunks. Inr chunks)
                               (Some (jsonStringify h newSnippetRequest)) of
                         (Inl e, effs2) \<Rightarrow> (Inl e, this1, asked @ effs @ effs2)
                       | (Inr newSnippet, effs2) \<Rightarrow>
                           (case sniphubItems this1 of
                              None \<Rightarrow> (Inl TypeError, this1, asked @ effs @ effs2)
                            | Some its \<Rightarrow>
                                (Inr (Some newSnippet),
                                 this1\<lparr>sniphubItems := Some (its @ [Chunks newSnippet])\<rparr>,
                                 asked @ effs @ effs2)))))))"

subsection \<open>Concrete inputs\<close>

text \<open>
  Instances of the arguments, for evaluating the functions above: a regular expression
  without metacharacters matches its own text where that first occurs in the line; a
  file type with no alias resolves to itself; word characters are ASCII letters, digits
  and the underscore; a document shows the same text on every line.
\<close>

fun literalMatch :: "jsstr \<Rightarrow> jsstr \<Rightarrow> jsstr option" where
  "literalMatch pat [] = (if pat = [] then Some [] else None)"
| "literalMatch pat (c # cs) =
     (if take (length pat) (c # cs) = pat then Some pat else literalMatch pat cs)"

definition onlyItself :: "jsstr \<Rightarrow> jsstr list" where
  "onlyItself ft = [ft]"

definition asciiWord :: "codeunit \<Rightarrow> bool" where
  "asciiWord c = ((0x30 \<le> c \<and> c \<le> 0x39) \<or> (0x41 \<le> c \<and> c \<le> 0x5A) \<or> c = 0x5F
                   \<or> (0x61 \<le> c \<and> c \<le> 0x7A))"

definition lineDoc :: "jsstr \<Rightarrow> jsstr \<Rightarrow> Document" where
  "lineDoc ft ln = \<lparr>doc_filetype = ft, getline = (\<lambda>n. ln), isWord = asciiWord\<rparr>"

definition storeItem :: "string \<Rightarrow> string \<Rightarrow> SnippetContent" where
  "storeItem nm lang =
     \<lparr>content = utf16 ''body'', created_at = utf16 ''2020-01-01'', content_id = utf16 ''id-'' @ utf16 nm,
      language = utf16 lang, name = utf16 nm, public = True, updated_at = utf16 ''2020-01-01''\<rparr>"

definition snippetOf :: "string \<Rightarrow> jsstr Snippet" where
  "snippetOf nm = itemSnippet 0 (Content (storeItem nm ''go''))"

definition approve :: "jsstr \<Rightarrow> error + bool" where
  \<comment> \<open>a context validator that accepts the expression \<^verbatim>\<open>yes\<close> only\<close>
  "approve expr = Inr (expr = utf16 ''yes'')"

definition examplePlatform :: "HttpReply \<Rightarrow> SnippetContent list \<Rightarrow> jsstr option \<Rightarrow> platform" where
  \<comment> \<open>a store that gives the same reply to every request, whose non-empty bodies parse
      to the given records; a user who gives the same answer to every prompt\<close>
  "examplePlatform reply records answer =
     \<lparr>newURL = (\<lambda>u. Inr \<lparr>href = u, host = utf16 ''localhost:3000'', port = utf16 ''3000'',
                          protocol = utf16 ''http:''\<rparr>),
      network = (\<lambda>req. reply),
      jsonParse = (\<lambda>b. if b = [] then Inl SyntaxError else Inr \<lparr>snippets = records\<rparr>),
      jsonStringify = (\<lambda>r. utf16 ''{}''),
      workspaceDocument = lineDoc (utf16 ''go'') (utf16 ''fn''),
      windowRequestInput = (\<lambda>prompt. answer)\<rparr>"

definition newProvider :: SniphubProvider where
  \<comment> \<open>the provider as its constructor leaves it\<close>
  "newProvider =
     \<lparr>config = \<lparr>apiUrl = utf16 ''http://localhost:3000'', apiToken = None\<rparr>,
      sniphubItems = None,
      baseHttpConfig = None\<rparr>"

section \<open>Properties\<close>

subsection \<open>Strings\<close>

lemma endsInSpace_iff: "endsInSpace s = (s \<noteq> [] \<and> isWhiteSpace (last s))"
  by (cases s rule: rev_cases) (simp_all add: endsInSpace_def)

lemma endsWith_iff: "endsWith s t = (\<exists>u. s = u @ t)"
proof
  assume "endsWith s t"
  then have "s = take (length s - length t) s @ t"
    by (metis append_take_drop_id endsWith_def)
  then show "\<exists>u. s = u @ t" ..
next
  assume "\<exists>u. s = u @ t"
  then show "endsWith s t" by (auto simp: endsWith_def)
qed

lemma slice0_suffix: "slice0 (u @ m) (int (length u)) = u"
  by (simp add: slice0_def Let_def)

lemma slice0_take:
  "length m \<le> length ln \<Longrightarrow>
   slice0 ln (int (length ln) - int (length m)) = take (length ln - length m) ln"
  by (simp add: slice0_def Let_def nat_diff_distrib')

subsection \<open>Snippets built from the catalog\<close>

lemma mapFrom_fields:
  "s \<in> set (mapFrom k its) \<Longrightarrow>
   regex s = None \<and> context s = None \<and> autoTrigger s = None \<and> triggerKind s = WordBoundary"
  by (induction k its rule: mapFrom.induct) (auto simp: itemSnippet_def)

lemma getSnippets_fields:
  "getSnippets gft items ft = Inr ss \<Longrightarrow> s \<in> set ss \<Longrightarrow>
   regex s = None \<and> context s = None \<and> autoTrigger s = None \<and> triggerKind s = WordBoundary"
  by (auto simp: getSnippets_def mapItems_def split: option.splits dest: mapFrom_fields)

subsection \<open>Trigger detection and trigger kinds\<close>

lemma getMatched_prefix:
  "regex s = None \<Longrightarrow> prefix s = Some p \<Longrightarrow>
   getMatched rx s ln = (if endsWith ln p then Some p else None)"
  by (simp add: getMatched_def toString_def)

lemma getMatched_prefix_suffix:
  "regex s = None \<Longrightarrow> getMatched rx s ln = Some m \<Longrightarrow> prefix s = Some m \<and> endsWith ln m"
  by (auto simp: getMatched_def toString_def split: if_splits)

lemma triggerFilter_kind:
  "getMatched rx s ln = Some m \<Longrightarrow> \<not> truthyBool auto \<Longrightarrow>
   triggerFilter rx doc auto ln s =
     (case triggerKind s of
        InWord \<Rightarrow> True
      | LineBegin \<Rightarrow> trim (slice0 ln (int (length ln) - int (length m))) = []
      | SpaceBefore \<Rightarrow> slice0 ln (int (length ln) - int (length m)) = []
                        \<or> isWhiteSpace (last (slice0 ln (int (length ln) - int (length m))))
      | WordBoundary \<Rightarrow> slice0 ln (int (length ln) - int (length m)) = []
                         \<or> \<not> isWord doc (last (slice0 ln (int (length ln) - int (length m)))))"
  by (cases "triggerKind s") (auto simp: triggerFilter_def Let_def endsInSpace_iff)

text \<open>
  Claim C5. Let the trigger of a snippet match with text \<open>m\<close>, on a request that is not
  an automatic trigger, and let \<open>pre\<close> be the text preceding the matched substring, the
  match ending the line. Then an \<open>InWord\<close> snippet is admitted; a \<open>LineBegin\<close> snippet is
  admitted iff \<open>pre\<close> trimmed is empty; a \<open>SpaceBefore\<close> snippet iff \<open>pre\<close> is empty or
  its last code unit is whitespace; a \<open>WordBoundary\<close> snippet iff \<open>pre\<close> is empty or its
  last code unit is not a word character of the document. The match of a literal
  prefix always ends the line, and the snippets that \<^verbatim>\<open>getTriggerSnippets\<close> filters, those
  of \<^verbatim>\<open>getSnippets\<close>, all have a literal prefix (and the kind \<open>WordBoundary\<close>).
\<close>

theorem trigger_kind_filter:
  "(getMatched rx s ln = Some m \<and> \<not> truthyBool auto \<and> ln = pre @ m \<longrightarrow>
      (triggerKind s = InWord \<longrightarrow> triggerFilter rx doc auto ln s)
      \<and> (triggerKind s = LineBegin \<longrightarrow> triggerFilter rx doc auto ln s = (trim pre = []))
      \<and> (triggerKind s = SpaceBefore \<longrightarrow>
            triggerFilter rx doc auto ln s = (pre = [] \<or> isWhiteSpace (last pre)))
      \<and> (triggerKind s = WordBoundary \<longrightarrow>
            triggerFilter rx doc auto ln s = (pre = [] \<or> \<not> isWord doc (last pre))))
   \<and> (getMatched rx s ln = Some m \<and> regex s = None \<longrightarrow> (\<exists>u. ln = u @ m))
   \<and> (getSnippets gft items ft = Inr ss \<and> s \<in> set ss \<longrightarrow>
        regex s = None \<and> triggerKind s = WordBoundary)"
proof (intro conjI impI)
  assume "getMatched rx s ln = Some m \<and> regex s = None"
  then have "endsWith ln m" using getMatched_prefix_suffix by blast
  then show "\<exists>u. ln = u @ m" by (simp add: endsWith_iff)
next
  assume "getSnippets gft items ft = Inr ss \<and> s \<in> set ss"
  then show "regex s = None" and "triggerKind s = WordBoundary"
    using getSnippets_fields by blast+
next
  assume a: "getMatched rx s ln = Some m \<and> \<not> truthyBool auto \<and> ln = pre @ m"
  then have m: "getMatched rx s ln = Some m" and flag: "\<not> truthyBool auto"
    and ln: "ln = pre @ m" by blast+
  have pre: "slice0 ln (int (length ln) - int (length m)) = pre"
    by (simp add: ln slice0_suffix)
  note kinds = triggerFilter_kind [OF m flag, of doc, unfolded pre]
  {
    assume "triggerKind s = InWord"
    with kinds show "triggerFilter rx doc auto ln s" by simp
  next
    assume "triggerKind s = LineBegin"
    with kinds show "triggerFilter rx doc auto ln s = (trim pre = [])" by simp
  next
    assume "triggerKind s = SpaceBefore"
    with kinds show "triggerFilter rx doc auto ln s = (pre = [] \<or> isWhiteSpace (last pre))"
      by simp
  next
    assume "triggerKind s = WordBoundary"
    with kinds show "triggerFilter rx doc auto ln s = (pre = [] \<or> \<not> isWord doc (last pre))"
      by simp
  }
qed

theorem trigger_kind_filter_witness:
  "getMatched literalMatch (snippetOf ''fn'') (utf16 ''  fn'') = Some (utf16 ''fn'')
   \<and> \<not> truthyBool None
   \<and> utf16 ''  fn'' = utf16 ''  '' @ utf16 ''fn''
   \<and> triggerKind (snippetOf ''fn'') = WordBoundary
   \<and> triggerFilter literalMatch (lineDoc (utf16 ''go'') (utf16 ''  fn'')) None (utf16 ''  fn'')
        (snippetOf ''fn'')"
proof -
  have m: "getMatched literalMatch (snippetOf ''fn'') (utf16 ''  fn'') = Some (utf16 ''fn'')"
    by (simp add: getMatched_def endsWith_def snippetOf_def itemSnippet_def storeItem_def
        utf16_def toString_def)
  have a: "\<not> truthyBool None" by (simp add: truthyBool_def)
  have p: "utf16 ''  fn'' = utf16 ''  '' @ utf16 ''fn''"
    by (simp add: utf16_def)
  have k: "triggerKind (snippetOf ''fn'') = WordBoundary"
    by (simp add: snippetOf_def itemSnippet_def)
  have w: "\<not> isWord (lineDoc (utf16 ''go'') (utf16 ''  fn'')) (last (utf16 ''  ''))"
    by (simp add: lineDoc_def asciiWord_def utf16_def)
  from trigger_kind_filter [of literalMatch "snippetOf ''fn''" "utf16 ''  fn''" "utf16 ''fn''" None
      "utf16 ''  ''" "lineDoc (utf16 ''go'') (utf16 ''  fn'')" onlyItself
      "Some [Content (storeItem ''fn'' ''go'')]" "utf16 ''go''" "[snippetOf ''fn'']"] m a p k w
  have "triggerFilter literalMatch (lineDoc (utf16 ''go'') (utf16 ''  fn'')) None (utf16 ''  fn'')
        (snippetOf ''fn'')" by blast
  with m a p k show ?thesis by blast
qed

subsection \<open>Ordering\<close>

lemma compareContext_with: "truthyStr (context x) \<Longrightarrow> compareContext x y \<le> 0"
  by (simp add: compareContext_def)

lemma compareContext_without:
  "\<not> truthyStr (context x) \<Longrightarrow> (compareContext x y \<le> 0) = (\<not> truthyStr (context y))"
  by (simp add: compareContext_def)

lemma sortInsert_with:
  "truthyStr (context x) \<Longrightarrow> sortInsert compareContext x ys = x # ys"
  by (cases ys) (simp_all add: compareContext_with)

lemma sortInsert_without:
  "\<not> truthyStr (context x) \<Longrightarrow> \<forall>c\<in>set cs. truthyStr (context c) \<Longrightarrow>
   \<forall>n\<in>set ns. \<not> truthyStr (context n) \<Longrightarrow>
   sortInsert compareContext x (cs @ ns) = cs @ x # ns"
proof (induction cs)
  case Nil
  then show ?case by (cases ns) (simp_all add: compareContext_without)
next
  case (Cons c cs)
  then show ?case by (simp add: compareContext_without)
qed

lemma arraySort_compareContext:
  "arraySort compareContext xs =
     filter (\<lambda>s. truthyStr (context s)) xs @ filter (\<lambda>s. \<not> truthyStr (context s)) xs"
proof (induction xs)
  case Nil
  show ?case by simp
next
  case (Cons x xs)
  show ?case
  proof (cases "truthyStr (context x)")
    case True
    then show ?thesis using Cons.IH by (simp add: sortInsert_with)
  next
    case False
    have "sortInsert compareContext x
            (filter (\<lambda>s. truthyStr (context s)) xs @ filter (\<lambda>s. \<not> truthyStr (context s)) xs)
          = filter (\<lambda>s. truthyStr (context s)) xs @ x # filter (\<lambda>s. \<not> truthyStr (context s)) xs"
      using False by (intro sortInsert_without) simp_all
    then show ?thesis using False Cons.IH by simp
  qed
qed

lemma set_arraySort_compareContext: "set (arraySort compareContext xs) = set xs"
  by (auto simp: arraySort_compareContext)

text \<open>
  Claim C6. The ordering step sorts by context presence only, and stably: the sorted
  sequence is the snippets that carry a context, in their catalog order, followed by the
  snippets that carry none, in their catalog order. So for A (no context), B (context),
  C (no context) in this order, the result is B, A, C. A snippet carries a context when
  its \<^verbatim>\<open>context\<close> is truthy, which is how the comparator reads it: a non-empty
  expression.
\<close>

theorem sort_by_context_stable:
  "arraySort compareContext xs =
     filter (\<lambda>s. truthyStr (context s)) xs @ filter (\<lambda>s. \<not> truthyStr (context s)) xs
   \<and> (\<not> truthyStr (context a) \<and> truthyStr (context b) \<and> \<not> truthyStr (context c)
        \<longrightarrow> arraySort compareContext [a, b, c] = [b, a, c])"
proof (intro conjI impI)
  show "arraySort compareContext xs =
     filter (\<lambda>s. truthyStr (context s)) xs @ filter (\<lambda>s. \<not> truthyStr (context s)) xs"
    by (rule arraySort_compareContext)
next
  assume "\<not> truthyStr (context a) \<and> truthyStr (context b) \<and> \<not> truthyStr (context c)"
  then show "arraySort compareContext [a, b, c] = [b, a, c]"
    unfolding arraySort_compareContext by simp
qed

theorem sort_by_context_stable_witness:
  "\<not> truthyStr (context (snippetOf ''A''))
   \<and> truthyStr (context ((snippetOf ''B'')\<lparr>context := Some (utf16 ''yes'')\<rparr>))
   \<and> \<not> truthyStr (context (snippetOf ''C''))
   \<and> arraySort compareContext
        [snippetOf ''A'', (snippetOf ''B'')\<lparr>context := Some (utf16 ''yes'')\<rparr>, snippetOf ''C'']
      = [(snippetOf ''B'')\<lparr>context := Some (utf16 ''yes'')\<rparr>, snippetOf ''A'', snippetOf ''C'']"
proof -
  have h: "\<not> truthyStr (context (snippetOf ''A''))
     \<and> truthyStr (context ((snippetOf ''B'')\<lparr>context := Some (utf16 ''yes'')\<rparr>))
     \<and> \<not> truthyStr (context (snippetOf ''C''))"
    by (simp add: snippetOf_def itemSnippet_def truthyStr_def utf16_def)
  with sort_by_context_stable [of "[]" "snippetOf ''A''"
      "(snippetOf ''B'')\<lparr>context := Some (utf16 ''yes'')\<rparr>" "snippetOf ''C''"]
  show ?thesis by blast
qed

subsection \<open>The walk\<close>

lemma pushEdit_Inr:
  "pushEdit rx ln pos s r = Inr eds \<Longrightarrow>
   \<exists>c rest. startCharacter rx ln pos s = Inr c \<and> r = Inr rest \<and> eds = makeEdit pos c s # rest
      \<and> 0 \<le> c"
  by (auto simp: pushEdit_def Range_create_def isUinteger_def makeEdit_def split: sum.splits if_splits)

lemma walk_after_context:
  "walk chk rx ln pos True ss = Inr eds \<Longrightarrow> \<forall>e\<in>set eds. truthyStr (edit_context e)"
proof (induction ss arbitrary: eds)
  case Nil
  then show ?case by simp
next
  case (Cons s ss)
  show ?case
  proof (cases "truthyStr (context s)")
    case False
    with Cons.prems show ?thesis by simp
  next
    case True
    show ?thesis
    proof (cases "chk (toString (context s))")
      case (Inl e)
      with True Cons.prems show ?thesis by simp
    next
      case (Inr valid)
      show ?thesis
      proof (cases valid)
        case False
        with True Inr Cons.prems Cons.IH show ?thesis by simp
      next
        case valid: True
        from True Inr valid Cons.prems
        have "pushEdit rx ln pos s (walk chk rx ln pos True ss) = Inr eds" by simp
        then obtain c rest where rest: "walk chk rx ln pos True ss = Inr rest"
          and eds: "eds = makeEdit pos c s # rest"
          using pushEdit_Inr by blast
        from Cons.IH [OF rest] True eds show ?thesis by (simp add: makeEdit_def editOf_def)
      qed
    qed
  qed
qed

lemma walk_edits_split:
  "walk chk rx ln pos hc ss = Inr eds \<Longrightarrow>
   \<exists>ns cs. eds = ns @ cs \<and> (\<forall>e\<in>set ns. \<not> truthyStr (edit_context e))
             \<and> (\<forall>e\<in>set cs. truthyStr (edit_context e))"
proof (induction ss arbitrary: eds)
  case Nil
  then show ?case by simp
next
  case (Cons s ss)
  show ?case
  proof (cases "truthyStr (context s)")
    case noctx: False
    show ?thesis
    proof (cases hc)
      case True
      with noctx Cons.prems show ?thesis by simp
    next
      case False
      with noctx Cons.prems
      have "pushEdit rx ln pos s (walk chk rx ln pos hc ss) = Inr eds" by simp
      then obtain c rest where rest: "walk chk rx ln pos hc ss = Inr rest"
        and eds: "eds = makeEdit pos c s # rest"
        using pushEdit_Inr by blast
      from Cons.IH [OF rest] obtain ns cs where
        "rest = ns @ cs" "\<forall>e\<in>set ns. \<not> truthyStr (edit_context e)"
        "\<forall>e\<in>set cs. truthyStr (edit_context e)" by blast
      with eds noctx have "eds = (makeEdit pos c s # ns) @ cs
          \<and> (\<forall>e\<in>set (makeEdit pos c s # ns). \<not> truthyStr (edit_context e))
          \<and> (\<forall>e\<in>set cs. truthyStr (edit_context e))"
        by (simp add: makeEdit_def editOf_def)
      then show ?thesis by blast
    qed
  next
    case ctx: True
    show ?thesis
    proof (cases "chk (toString (context s))")
      case (Inl e)
      with ctx Cons.prems show ?thesis by simp
    next
      case (Inr valid)
      show ?thesis
      proof (cases valid)
        case False
        with ctx Inr Cons.prems Cons.IH show ?thesis by simp
      next
        case True
        with ctx Inr Cons.prems
        have "pushEdit rx ln pos s (walk chk rx ln pos True ss) = Inr eds" by simp
        then obtain c rest where rest: "walk chk rx ln pos True ss = Inr rest"
          and eds: "eds = makeEdit pos c s # rest"
          using pushEdit_Inr by blast
        from walk_after_context [OF rest] eds ctx
        have "eds = [] @ eds \<and> (\<forall>e\<in>set []. \<not> truthyStr (edit_context e))
            \<and> (\<forall>e\<in>set eds. truthyStr (edit_context e))"
          by (simp add: makeEdit_def editOf_def)
        then show ?thesis by blast
      qed
    qed
  qed
qed

text \<open>
  Claim C2. At any step of the walk, whatever the flag: a candidate with a context whose
  check answers false is skipped and the walk goes on with the remaining candidates
  under the same flag; a candidate with a context whose check answers true is emitted,
  and of the candidates after it only those with a context are emitted, a candidate
  without one ending the walk. Hence in the returned edits no edit without a context
  follows an edit with one.
\<close>

theorem walk_context_gate:
  "(truthyStr (context s) \<and> chk (toString (context s)) = Inr False \<longrightarrow>
      walk chk rx ln pos hc (s # ss) = walk chk rx ln pos hc ss)
   \<and> (truthyStr (context s) \<and> chk (toString (context s)) = Inr True
        \<and> walk chk rx ln pos hc (s # ss) = Inr edits \<longrightarrow>
      (\<exists>c rest. edits = makeEdit pos c s # rest \<and> walk chk rx ln pos True ss = Inr rest
          \<and> (\<forall>e\<in>set rest. truthyStr (edit_context e))))
   \<and> (\<not> truthyStr (context n) \<longrightarrow> walk chk rx ln pos True (n # ss) = Inr [])
   \<and> (walk chk rx ln pos False ss = Inr edits \<longrightarrow>
      (\<exists>ns cs. edits = ns @ cs \<and> (\<forall>e\<in>set ns. \<not> truthyStr (edit_context e))
          \<and> (\<forall>e\<in>set cs. truthyStr (edit_context e))))"
proof -
  have skip: "truthyStr (context s) \<and> chk (toString (context s)) = Inr False \<longrightarrow>
      walk chk rx ln pos hc (s # ss) = walk chk rx ln pos hc ss"
    by simp
  have pass: "truthyStr (context s) \<and> chk (toString (context s)) = Inr True
        \<and> walk chk rx ln pos hc (s # ss) = Inr edits \<longrightarrow>
      (\<exists>c rest. edits = makeEdit pos c s # rest \<and> walk chk rx ln pos True ss = Inr rest
          \<and> (\<forall>e\<in>set rest. truthyStr (edit_context e)))"
  proof
    assume a: "truthyStr (context s) \<and> chk (toString (context s)) = Inr True
        \<and> walk chk rx ln pos hc (s # ss) = Inr edits"
    then have "truthyStr (context s)" and "chk (toString (context s)) = Inr True"
      and "walk chk rx ln pos hc (s # ss) = Inr edits" by blast+
    then have "pushEdit rx ln pos s (walk chk rx ln pos True ss) = Inr edits" by simp
    then obtain c rest where rest: "walk chk rx ln pos True ss = Inr rest"
      and eds: "edits = makeEdit pos c s # rest"
      using pushEdit_Inr by blast
    with walk_after_context [OF rest]
    show "\<exists>c rest. edits = makeEdit pos c s # rest \<and> walk chk rx ln pos True ss = Inr rest
          \<and> (\<forall>e\<in>set rest. truthyStr (edit_context e))" by blast
  qed
  have stop: "\<not> truthyStr (context n) \<longrightarrow> walk chk rx ln pos True (n # ss) = Inr []"
    by simp
  have whole: "walk chk rx ln pos False ss = Inr edits \<longrightarrow>
      (\<exists>ns cs. edits = ns @ cs \<and> (\<forall>e\<in>set ns. \<not> truthyStr (edit_context e))
          \<and> (\<forall>e\<in>set cs. truthyStr (edit_context e)))"
    using walk_edits_split by blast
  from skip pass stop whole show ?thesis by blast
qed

theorem walk_context_gate_witness:
  "walk approve literalMatch (utf16 ''fn'') \<lparr>line = 0, character = 2\<rparr> False
      [(snippetOf ''fn'')\<lparr>context := Some (utf16 ''no'')\<rparr>, snippetOf ''fn'']
    = walk approve literalMatch (utf16 ''fn'') \<lparr>line = 0, character = 2\<rparr> False [snippetOf ''fn'']
   \<and> walk approve literalMatch (utf16 ''fn'') \<lparr>line = 0, character = 2\<rparr> False [snippetOf ''fn'']
    = Inr [makeEdit \<lparr>line = 0, character = 2\<rparr> 0 (snippetOf ''fn'')]
   \<and> walk approve literalMatch (utf16 ''fn'') \<lparr>line = 0, character = 2\<rparr> False
      [(snippetOf ''fn'')\<lparr>context := Some (utf16 ''yes'')\<rparr>, snippetOf ''fn'']
    = Inr [makeEdit \<lparr>line = 0, character = 2\<rparr> 0 ((snippetOf ''fn'')\<lparr>context := Some (utf16 ''yes'')\<rparr>)]"
proof -
  have no: "truthyStr (context ((snippetOf ''fn'')\<lparr>context := Some (utf16 ''no'')\<rparr>))
      \<and> approve (toString (context ((snippetOf ''fn'')\<lparr>context := Some (utf16 ''no'')\<rparr>))) = Inr False"
    by (simp add: truthyStr_def toString_def approve_def utf16_def)
  have skipped: "walk approve literalMatch (utf16 ''fn'') \<lparr>line = 0, character = 2\<rparr> False
      [(snippetOf ''fn'')\<lparr>context := Some (utf16 ''no'')\<rparr>, snippetOf ''fn'']
    = walk approve literalMatch (utf16 ''fn'') \<lparr>line = 0, character = 2\<rparr> False [snippetOf ''fn'']"
    using no walk_context_gate [of "(snippetOf ''fn'')\<lparr>context := Some (utf16 ''no'')\<rparr>" approve
        literalMatch "utf16 ''fn''" "\<lparr>line = 0, character = 2\<rparr>" False "[snippetOf ''fn'']"]
    by blast
  have plain: "walk approve literalMatch (utf16 ''fn'') \<lparr>line = 0, character = 2\<rparr> False [snippetOf ''fn'']
    = Inr [makeEdit \<lparr>line = 0, character = 2\<rparr> 0 (snippetOf ''fn'')]"
    by (simp add: pushEdit_def Range_create_def isUinteger_def makeEdit_def startCharacter_def snippetOf_def itemSnippet_def storeItem_def
        truthyStr_def utf16_def)
  have passed: "walk approve literalMatch (utf16 ''fn'') \<lparr>line = 0, character = 2\<rparr> False
      [(snippetOf ''fn'')\<lparr>context := Some (utf16 ''yes'')\<rparr>, snippetOf ''fn'']
    = Inr [makeEdit \<lparr>line = 0, character = 2\<rparr> 0 ((snippetOf ''fn'')\<lparr>context := Some (utf16 ''yes'')\<rparr>)]"
    by (simp add: pushEdit_def Range_create_def isUinteger_def makeEdit_def startCharacter_def snippetOf_def itemSnippet_def storeItem_def
        truthyStr_def toString_def approve_def utf16_def)
  from skipped plain passed show ?thesis by blast
qed

subsection \<open>The literal prefix detector\<close>

text \<open>
  Claim C1, as the code has it. A snippet with no regular expression and prefix \<open>p\<close>
  matches iff the whole line ends with \<open>p\<close>; the cursor offset is not consulted. When the
  cursor is at the end of the line, that is the text preceding the cursor. A line that
  ends in the prefix matches, and a line whose last code unit differs from the last code
  unit of the prefix does not. The filter admits only snippets whose prefix ends the
  line, and admits an \<open>InWord\<close> snippet exactly then.
\<close>

theorem prefix_suffix_match:
  assumes "regex s = None" and "prefix s = Some p"
  shows "getMatched rx s ln = (if endsWith ln p then Some p else None)
    \<and> endsWith ln p = (\<exists>u. ln = u @ p)
    \<and> (int (length ln) = character pos \<longrightarrow>
          (getMatched rx s ln = Some p) = endsWith (take (nat (character pos)) ln) p)
    \<and> getMatched rx s (u @ p) = Some p
    \<and> (p = q @ [d] \<and> c \<noteq> d \<longrightarrow> getMatched rx s (u @ [c]) = None)
    \<and> (triggerFilter rx doc None ln s \<longrightarrow> endsWith ln p)
    \<and> (triggerKind s = InWord \<longrightarrow> triggerFilter rx doc None ln s = endsWith ln p)"
proof -
  note gm = getMatched_prefix [OF assms]
  have 1: "getMatched rx s ln = (if endsWith ln p then Some p else None)"
    by (rule gm)
  have 2: "endsWith ln p = (\<exists>u. ln = u @ p)"
    by (rule endsWith_iff)
  have 3: "int (length ln) = character pos \<longrightarrow>
          (getMatched rx s ln = Some p) = endsWith (take (nat (character pos)) ln) p"
  proof
    assume "int (length ln) = character pos"
    then have "take (nat (character pos)) ln = ln" by auto
    then show "(getMatched rx s ln = Some p) = endsWith (take (nat (character pos)) ln) p"
      by (simp add: gm)
  qed
  have 4: "getMatched rx s (u @ p) = Some p"
    by (simp add: gm endsWith_def)
  have 5: "p = q @ [d] \<and> c \<noteq> d \<longrightarrow> getMatched rx s (u @ [c]) = None"
    by (auto simp: gm endsWith_iff)
  have 6: "triggerFilter rx doc None ln s \<longrightarrow> endsWith ln p"
    by (auto simp: triggerFilter_def gm split: if_splits)
  have 7: "triggerKind s = InWord \<longrightarrow> triggerFilter rx doc None ln s = endsWith ln p"
    by (auto simp: triggerFilter_def gm truthyBool_def)
  from 1 2 3 4 5 6 7 show ?thesis by blast
qed

theorem prefix_suffix_match_witness:
  "regex (snippetOf ''fn'') = None \<and> prefix (snippetOf ''fn'') = Some (utf16 ''fn'')
   \<and> getMatched literalMatch (snippetOf ''fn'') (utf16 ''  fn'') = Some (utf16 ''fn'')
   \<and> getMatched literalMatch (snippetOf ''fn'') (utf16 ''  fm'') = None"
proof -
  have r: "regex (snippetOf ''fn'') = None"
    by (simp add: snippetOf_def itemSnippet_def)
  have p: "prefix (snippetOf ''fn'') = Some (utf16 ''fn'')"
    by (simp add: snippetOf_def itemSnippet_def storeItem_def)
  have a: "utf16 ''  fn'' = utf16 ''  '' @ utf16 ''fn''"
    and b: "utf16 ''  fm'' = utf16 ''  f'' @ [0x6D]"
    and c: "utf16 ''fn'' = utf16 ''f'' @ [0x6E] \<and> (0x6D :: codeunit) \<noteq> 0x6E"
    by (simp_all add: utf16_def)
  from prefix_suffix_match [OF r p, of literalMatch _ _ "utf16 ''  ''"]
  have m: "getMatched literalMatch (snippetOf ''fn'') (utf16 ''  '' @ utf16 ''fn'') = Some (utf16 ''fn'')"
    by blast
  from prefix_suffix_match [OF r p, of literalMatch _ _ "utf16 ''  f''" "utf16 ''f''" "0x6E" "0x6D"] c
  have n: "getMatched literalMatch (snippetOf ''fn'') (utf16 ''  f'' @ [0x6D]) = None"
    by blast
  from r p m n show ?thesis unfolding a b by blast
qed

text \<open>
  Claim C1 as stated speaks of the text preceding the cursor. With the line \<^verbatim>\<open>fn x\<close>
  and the cursor at column 2 that text is \<^verbatim>\<open>fn\<close> and ends with the prefix \<^verbatim>\<open>fn\<close>, yet the
  snippet is not matched and no edit is returned: the line itself does not end with
  the prefix.
\<close>

theorem prefix_cursor_counterexample:
  "endsWith (take 2 (utf16 ''fn x'')) (utf16 ''fn'')
   \<and> getMatched literalMatch (snippetOf ''fn'') (utf16 ''fn x'') = None
   \<and> getTriggerSnippets onlyItself approve literalMatch (Some [Content (storeItem ''fn'' ''go'')])
        (lineDoc (utf16 ''go'') (utf16 ''fn x'')) \<lparr>line = 0, character = 2\<rparr> None = Inr []"
  by (simp add: endsWith_def getMatched_def getTriggerSnippets_def triggerEdits_def
      getSnippets_def mapItems_def arrayIncludes_def triggerFilter_def onlyItself_def
      lineDoc_def snippetOf_def itemSnippet_def storeItem_def toString_def truthyBool_def
      utf16_def)

subsection \<open>The emitted edits\<close>

lemma triggerFilter_matched:
  "triggerFilter rx doc auto ln s \<Longrightarrow> \<exists>m. getMatched rx s ln = Some m"
  by (auto simp: triggerFilter_def split: if_splits option.splits)

lemma startCharacter_matched:
  "getMatched rx s ln = Some m \<Longrightarrow>
   startCharacter rx ln pos s = Inr (character pos - int (length m))"
  by (auto simp: getMatched_def startCharacter_def split: option.splits if_splits)

lemma walk_Cons_cases:
  "walk chk rx ln pos hc (s # ss) = walk chk rx ln pos hc ss
   \<or> walk chk rx ln pos hc (s # ss) = Inr []
   \<or> (\<exists>err. walk chk rx ln pos hc (s # ss) = Inl err)
   \<or> (\<exists>hc'. walk chk rx ln pos hc (s # ss) = pushEdit rx ln pos s (walk chk rx ln pos hc' ss))"
proof (cases "truthyStr (context s)")
  case False
  then show ?thesis by (cases hc) auto
next
  case True
  show ?thesis
  proof (cases "chk (toString (context s))")
    case (Inl err)
    with True show ?thesis by simp
  next
    case (Inr valid)
    with True show ?thesis by (cases valid) auto
  qed
qed

lemma walk_edit_origin:
  "walk chk rx ln pos hc ss = Inr eds \<Longrightarrow> e \<in> set eds \<Longrightarrow>
   \<exists>s\<in>set ss. \<exists>c. startCharacter rx ln pos s = Inr c \<and> e = makeEdit pos c s \<and> 0 \<le> c"
proof (induction ss arbitrary: eds hc)
  case Nil
  then show ?case by simp
next
  case (Cons s ss)
  have "walk chk rx ln pos hc (s # ss) = walk chk rx ln pos hc ss
      \<or> walk chk rx ln pos hc (s # ss) = Inr []
      \<or> (\<exists>err. walk chk rx ln pos hc (s # ss) = Inl err)
      \<or> (\<exists>hc'. walk chk rx ln pos hc (s # ss)
                 = pushEdit rx ln pos s (walk chk rx ln pos hc' ss))"
    by (rule walk_Cons_cases)
  then consider (skip) "walk chk rx ln pos hc (s # ss) = walk chk rx ln pos hc ss"
    | (stop) "walk chk rx ln pos hc (s # ss) = Inr []"
    | (fail) err where "walk chk rx ln pos hc (s # ss) = Inl err"
    | (push) hc' where
        "walk chk rx ln pos hc (s # ss) = pushEdit rx ln pos s (walk chk rx ln pos hc' ss)"
    by blast
  then show ?case
  proof cases
    case skip
    with Cons.prems Cons.IH [of hc eds] show ?thesis by auto
  next
    case stop
    with Cons.prems show ?thesis by simp
  next
    case fail
    with Cons.prems show ?thesis by simp
  next
    case push
    with Cons.prems obtain c rest where c: "startCharacter rx ln pos s = Inr c"
      and rest: "walk chk rx ln pos hc' ss = Inr rest" and eds: "eds = makeEdit pos c s # rest"
      and nonneg: "0 \<le> c"
      using pushEdit_Inr by metis
    show ?thesis
    proof (cases "e = makeEdit pos c s")
      case True
      with c nonneg show ?thesis by auto
    next
      case False
      with eds Cons.prems have "e \<in> set rest" by simp
      from Cons.IH [OF rest this] show ?thesis by auto
    qed
  qed
qed

lemma triggerEdits_origin:
  assumes "triggerEdits chk rx (Inr available) doc pos auto = Inr edits" and "e \<in> set edits"
  shows "\<exists>s\<in>set available. \<exists>m. getMatched rx s (getline doc (line pos)) = Some m
            \<and> e = makeEdit pos (character pos - int (length m)) s
            \<and> 0 \<le> character pos - int (length m)"
proof -
  let ?ln = "getline doc (line pos)"
  let ?cands = "arraySort compareContext (filter (triggerFilter rx doc auto ?ln) available)"
  from assms have w: "walk chk rx ?ln pos False ?cands = Inr edits"
    by (auto simp: triggerEdits_def Let_def split: if_splits)
  from walk_edit_origin [OF w assms(2)] obtain s c where
    s: "s \<in> set ?cands" and c: "startCharacter rx ?ln pos s = Inr c" and e: "e = makeEdit pos c s"
    and nonneg: "0 \<le> c"
    by blast
  from s have av: "s \<in> set available" and tf: "triggerFilter rx doc auto ?ln s"
    by (simp_all add: set_arraySort_compareContext)
  from triggerFilter_matched [OF tf] obtain m where m: "getMatched rx s ?ln = Some m" ..
  from startCharacter_matched [OF m, of pos] c have "c = character pos - int (length m)" by simp
  with av m e nonneg show ?thesis by blast
qed

lemma getTriggerSnippets_body:
  assumes run: "getTriggerSnippets gft chk (rx :: 'r \<Rightarrow> jsstr \<Rightarrow> jsstr option) items doc pos auto
                  = Inr edits"
    and e: "e \<in> set edits"
  shows "\<exists>av :: 'r Snippet list. getSnippets gft items (doc_filetype doc) = Inr av
            \<and> triggerEdits chk rx (Inr av) doc pos auto = Inr edits"
proof -
  from e have "edits \<noteq> []" by auto
  with run have early: "\<not> truthyBool auto" "getline doc (line pos) \<noteq> []"
    by (auto simp: getTriggerSnippets_def triggerEdits_def Let_def split: if_splits)
  show ?thesis
  proof (cases "getSnippets gft items (doc_filetype doc) :: error + 'r Snippet list")
    case (Inl err)
    with early have "getTriggerSnippets gft chk rx items doc pos auto = Inl err"
      by (simp add: getTriggerSnippets_def triggerEdits_def Let_def)
    with run show ?thesis by simp
  next
    case (Inr av)
    with run have "triggerEdits chk rx (Inr av) doc pos auto = Inr edits"
      by (simp add: getTriggerSnippets_def)
    with Inr show ?thesis by blast
  qed
qed

text \<open>
  Claim C4. Every edit that the body of \<^verbatim>\<open>getTriggerSnippets\<close> returns, from whatever
  snippets \<^verbatim>\<open>getSnippets\<close> supplies, comes from one of these snippets whose trigger
  matched the line with some text \<open>m\<close>; its range lies on the cursor's line, from the
  cursor offset minus the length of \<open>m\<close> to the cursor offset, and it carries the
  snippet's body, description, location, priority, original pattern and context. The
  same span holds of every edit that \<^verbatim>\<open>getTriggerSnippets\<close> returns from the catalog. End
  to end: with the catalog holding one record named \<^verbatim>\<open>fn\<close> for language \<^verbatim>\<open>go\<close> (a
  \<open>WordBoundary\<close> snippet), the line \<^verbatim>\<open>  fn\<close>, the cursor at column 4 and the file type
  \<^verbatim>\<open>go\<close> (which resolves to itself, the space not being a word character), on any line
  whose number the host accepts, the result is one edit with range [line, 2] to
  [line, 4].
\<close>

theorem edit_range_span:
  "(triggerEdits chk rx (Inr available) doc pos auto = Inr edits \<and> e \<in> set edits \<longrightarrow>
      (\<exists>s m. s \<in> set available \<and> getMatched rx s (getline doc (line pos)) = Some m
         \<and> edit_range e = \<lparr>start = \<lparr>line = line pos, character = character pos - int (length m)\<rparr>,
                            end = pos\<rparr>
         \<and> newText e = body s \<and> edit_prefix e = prefix s \<and> edit_description e = description s
         \<and> location e = filepath s \<and> edit_priority e = priority s
         \<and> edit_regex e = originRegex s \<and> edit_context e = context s))
   \<and> (getTriggerSnippets gft chk rx items doc pos auto = Inr edits \<and> e \<in> set edits \<longrightarrow>
      (\<exists>m. edit_range e = \<lparr>start = \<lparr>line = line pos, character = character pos - int (length m)\<rparr>,
                              end = \<lparr>line = line pos, character = character pos\<rparr>\<rparr>
         \<and> (\<exists>s. getMatched rx s (getline doc (line pos)) = Some m \<and> edit_prefix e = prefix s)))
   \<and> (name c = utf16 ''fn'' \<and> language c = utf16 ''go'' \<and> doc_filetype doc = utf16 ''go''
        \<and> utf16 ''go'' \<in> set (gft (utf16 ''go'')) \<and> getline doc l = utf16 ''  fn''
        \<and> \<not> isWord doc 0x20 \<and> isUinteger l \<longrightarrow>
      (\<exists>e1. getTriggerSnippets gft chk rx (Some [Content c]) doc \<lparr>line = l, character = 4\<rparr> None
               = Inr [e1]
         \<and> edit_range e1 = \<lparr>start = \<lparr>line = l, character = 2\<rparr>,
                             end = \<lparr>line = l, character = 4\<rparr>\<rparr>))"
proof (intro conjI impI)
  assume "triggerEdits chk rx (Inr available) doc pos auto = Inr edits \<and> e \<in> set edits"
  then have "triggerEdits chk rx (Inr available) doc pos auto = Inr edits" and "e \<in> set edits"
    by blast+
  from triggerEdits_origin [OF this] obtain s m where "s \<in> set available"
    and "getMatched rx s (getline doc (line pos)) = Some m"
    and e: "e = makeEdit pos (character pos - int (length m)) s" by blast
  moreover from e have
    "edit_range e = \<lparr>start = \<lparr>line = line pos, character = character pos - int (length m)\<rparr>,
                      end = pos\<rparr>"
    by (simp add: makeEdit_def editOf_def)
  moreover from e have "newText e = body s \<and> edit_prefix e = prefix s
      \<and> edit_description e = description s \<and> location e = filepath s
      \<and> edit_priority e = priority s \<and> edit_regex e = originRegex s \<and> edit_context e = context s"
    by (simp add: makeEdit_def editOf_def)
  ultimately show "\<exists>s m. s \<in> set available \<and> getMatched rx s (getline doc (line pos)) = Some m
         \<and> edit_range e = \<lparr>start = \<lparr>line = line pos, character = character pos - int (length m)\<rparr>,
                            end = pos\<rparr>
         \<and> newText e = body s \<and> edit_prefix e = prefix s \<and> edit_description e = description s
         \<and> location e = filepath s \<and> edit_priority e = priority s
         \<and> edit_regex e = originRegex s \<and> edit_context e = context s"
    by blast
next
  assume "getTriggerSnippets gft chk rx items doc pos auto = Inr edits \<and> e \<in> set edits"
  then have "getTriggerSnippets gft chk rx items doc pos auto = Inr edits" and e: "e \<in> set edits"
    by blast+
  from getTriggerSnippets_body [OF this] obtain av where
    "triggerEdits chk rx (Inr av) doc pos auto = Inr edits" by blast
  from triggerEdits_origin [OF this e] obtain s m where
    m: "getMatched rx s (getline doc (line pos)) = Some m"
    and ed: "e = makeEdit pos (character pos - int (length m)) s" by blast
  from ed have "edit_range e
      = \<lparr>start = \<lparr>line = line pos, character = character pos - int (length m)\<rparr>,
         end = \<lparr>line = line pos, character = character pos\<rparr>\<rparr>"
    and "edit_prefix e = prefix s"
    by (simp_all add: makeEdit_def editOf_def)
  with m show "\<exists>m. edit_range e
        = \<lparr>start = \<lparr>line = line pos, character = character pos - int (length m)\<rparr>,
           end = \<lparr>line = line pos, character = character pos\<rparr>\<rparr>
      \<and> (\<exists>s. getMatched rx s (getline doc (line pos)) = Some m \<and> edit_prefix e = prefix s)"
    by blast
next
  assume a: "name c = utf16 ''fn'' \<and> language c = utf16 ''go'' \<and> doc_filetype doc = utf16 ''go''
        \<and> utf16 ''go'' \<in> set (gft (utf16 ''go'')) \<and> getline doc l = utf16 ''  fn''
        \<and> \<not> isWord doc 0x20 \<and> isUinteger l"
  then have nm: "name c = utf16 ''fn''" and lang: "language c = utf16 ''go''"
    and ft: "doc_filetype doc = utf16 ''go''" and al: "utf16 ''go'' \<in> set (gft (utf16 ''go''))"
    and ln: "getline doc l = utf16 ''  fn''" and sp: "\<not> isWord doc 0x20"
    and ul: "isUinteger l"
    by blast+
  define S :: "'a Snippet" where "S = itemSnippet 0 (Content c)"
  have fields: "regex S = None" "prefix S = Some (utf16 ''fn'')" "context S = None"
    "triggerKind S = WordBoundary" "autoTrigger S = None" "filetype S = Some (utf16 ''go'')"
    by (simp_all add: S_def itemSnippet_def nm lang)
  have snips: "getSnippets gft (Some [Content c]) (utf16 ''go'') = Inr [S]"
    using al by (simp add: getSnippets_def mapItems_def arrayIncludes_def fields flip: S_def)
  have gm: "getMatched rx S (utf16 ''  fn'') = Some (utf16 ''fn'')"
    by (simp add: getMatched_prefix [OF fields(1,2)] endsWith_def utf16_def)
  have pre: "slice0 (utf16 ''  fn'') (int (length (utf16 ''  fn'')) - int (length (utf16 ''fn'')))
      = utf16 ''  ''"
    by (simp add: slice0_def utf16_def)
  have tf: "triggerFilter rx doc None (utf16 ''  fn'') S"
    using sp by (simp add: triggerFilter_def gm fields pre truthyBool_def Let_def) (simp add: utf16_def)
  have sc: "startCharacter rx (utf16 ''  fn'') \<lparr>line = l, character = 4\<rparr> S = Inr 2"
    by (simp add: startCharacter_matched [OF gm]) (simp add: utf16_def)
  have wk: "walk chk rx (utf16 ''  fn'') \<lparr>line = l, character = 4\<rparr> False [S]
      = Inr [makeEdit \<lparr>line = l, character = 4\<rparr> 2 S]"
    using ul by (simp add: fields truthyStr_def pushEdit_def Range_create_def isUinteger_def makeEdit_def sc)
  have ne: "utf16 ''  fn'' \<noteq> []"
    by (simp add: utf16_def)
  have "getTriggerSnippets gft chk rx (Some [Content c]) doc \<lparr>line = l, character = 4\<rparr> None
      = Inr [makeEdit \<lparr>line = l, character = 4\<rparr> 2 S]"
    by (simp add: getTriggerSnippets_def triggerEdits_def Let_def ft snips ln ne tf wk truthyBool_def
        del: walk.simps)
  then show "\<exists>e1. getTriggerSnippets gft chk rx (Some [Content c]) doc \<lparr>line = l, character = 4\<rparr> None
               = Inr [e1]
         \<and> edit_range e1 = \<lparr>start = \<lparr>line = l, character = 2\<rparr>,
                             end = \<lparr>line = l, character = 4\<rparr>\<rparr>"
    by (simp add: makeEdit_def editOf_def)
qed

theorem edit_range_span_witness:
  "triggerEdits approve literalMatch (Inr [snippetOf ''fn''])
       (lineDoc (utf16 ''go'') (utf16 ''  fn'')) \<lparr>line = 0, character = 4\<rparr> None
     = Inr [makeEdit \<lparr>line = 0, character = 4\<rparr> 2 (snippetOf ''fn'')]
   \<and> (\<exists>s m. s \<in> set [snippetOf ''fn'']
         \<and> getMatched literalMatch s (utf16 ''  fn'') = Some m
         \<and> edit_range (makeEdit \<lparr>line = 0, character = 4\<rparr> 2 (snippetOf ''fn''))
             = \<lparr>start = \<lparr>line = 0, character = 4 - int (length m)\<rparr>,
                end = \<lparr>line = 0, character = 4\<rparr>\<rparr>)
   \<and> (\<exists>e1. getTriggerSnippets onlyItself approve literalMatch
               (Some [Content (storeItem ''fn'' ''go'')])
               (lineDoc (utf16 ''go'') (utf16 ''  fn'')) \<lparr>line = 0, character = 4\<rparr> None = Inr [e1]
         \<and> edit_range e1 = \<lparr>start = \<lparr>line = 0, character = 2\<rparr>,
                             end = \<lparr>line = 0, character = 4\<rparr>\<rparr>)"
proof -
  let ?D = "lineDoc (utf16 ''go'') (utf16 ''  fn'')"
  let ?P = "\<lparr>line = 0, character = 4\<rparr>"
  let ?E = "makeEdit ?P 2 (snippetOf ''fn'')"
  have run: "triggerEdits approve literalMatch (Inr [snippetOf ''fn'']) ?D ?P None = Inr [?E]"
    by (simp add: triggerEdits_def triggerFilter_def getMatched_def endsWith_def slice0_def
        pushEdit_def Range_create_def isUinteger_def makeEdit_def startCharacter_def lineDoc_def asciiWord_def snippetOf_def itemSnippet_def
        storeItem_def toString_def truthyBool_def truthyStr_def utf16_def Let_def)
  have hyps: "name (storeItem ''fn'' ''go'') = utf16 ''fn''
      \<and> language (storeItem ''fn'' ''go'') = utf16 ''go''
      \<and> doc_filetype ?D = utf16 ''go'' \<and> utf16 ''go'' \<in> set (onlyItself (utf16 ''go''))
      \<and> getline ?D 0 = utf16 ''  fn'' \<and> \<not> isWord ?D 0x20 \<and> isUinteger 0"
    by (simp add: storeItem_def lineDoc_def onlyItself_def asciiWord_def isUinteger_def)
  note inst = edit_range_span [of approve literalMatch "[snippetOf ''fn'']" ?D ?P None "[?E]" ?E
      onlyItself _ "storeItem ''fn'' ''go''" 0]
  from inst run have "\<exists>s m. s \<in> set [snippetOf ''fn'']
         \<and> getMatched literalMatch s (getline ?D (line ?P)) = Some m
         \<and> edit_range ?E = \<lparr>start = \<lparr>line = line ?P, character = character ?P - int (length m)\<rparr>,
                             end = ?P\<rparr>"
    by auto
  then have first: "\<exists>s m. s \<in> set [snippetOf ''fn'']
         \<and> getMatched literalMatch s (utf16 ''  fn'') = Some m
         \<and> edit_range ?E = \<lparr>start = \<lparr>line = 0, character = 4 - int (length m)\<rparr>, end = ?P\<rparr>"
    by (simp add: lineDoc_def)
  from inst hyps have second: "\<exists>e1. getTriggerSnippets onlyItself approve literalMatch
               (Some [Content (storeItem ''fn'' ''go'')]) ?D ?P None = Inr [e1]
         \<and> edit_range e1 = \<lparr>start = \<lparr>line = 0, character = 2\<rparr>, end = ?P\<rparr>"
    by blast
  from run first second show ?thesis by blast
qed

subsection \<open>The start column is not clamped\<close>

lemma getTriggerSnippets_start:
  assumes run: "getTriggerSnippets gft chk (rx :: 'r \<Rightarrow> jsstr \<Rightarrow> jsstr option) items doc pos auto
                  = Inr edits"
    and e: "e \<in> set edits"
  shows "\<exists>p. edit_prefix e = Some p \<and> endsWith (getline doc (line pos)) p
         \<and> character (start (edit_range e)) = character pos - int (length p)
         \<and> 0 \<le> character (start (edit_range e))"
proof -
  from getTriggerSnippets_body [OF run e] obtain av :: "'r Snippet list"
    where av: "getSnippets gft items (doc_filetype doc) = Inr av"
      and te: "triggerEdits chk rx (Inr av) doc pos auto = Inr edits" by blast
  from triggerEdits_origin [OF te e] obtain s m where s: "s \<in> set av"
    and m: "getMatched rx s (getline doc (line pos)) = Some m"
    and ed: "e = makeEdit pos (character pos - int (length m)) s"
    and nonneg: "0 \<le> character pos - int (length m)" by blast
  from getSnippets_fields [OF av s] have "regex s = None" by simp
  from getMatched_prefix_suffix [OF this m]
  have "prefix s = Some m" and "endsWith (getline doc (line pos)) m" by simp_all
  with ed nonneg have "edit_prefix e = Some m \<and> endsWith (getline doc (line pos)) m
         \<and> character (start (edit_range e)) = character pos - int (length m)
         \<and> 0 \<le> character (start (edit_range e))"
    by (simp add: makeEdit_def editOf_def)
  then show ?thesis ..
qed

lemma pushEdit_negative:
  "regex s = None \<Longrightarrow> prefix s = Some p \<Longrightarrow> character pos < int (length p) \<Longrightarrow>
   pushEdit rx ln pos s rest = Inl InvalidArguments"
  by (simp add: pushEdit_def startCharacter_def Range_create_def isUinteger_def)

text \<open>
  Claim C10, as the code has it. \<^verbatim>\<open>getTriggerSnippets\<close> does not clamp the start column:
  it hands the cursor offset minus the length of the prefix to \<^verbatim>\<open>Range.create\<close> as it
  is. \<^verbatim>\<open>Range.create\<close> throws on a negative column and the exception is not caught, so
  when the prefix of a candidate is longer than the cursor offset the step that would
  emit its edit fails, and with it the call. Every edit that is emitted carries the
  prefix \<open>p\<close> of its snippet, \<open>p\<close> ends the line, and its start character is the cursor
  offset minus the length of \<open>p\<close>, which is not negative. With the line \<^verbatim>\<open>fn\<close>, the
  snippet \<^verbatim>\<open>fn\<close> and the cursor at column 0 the call fails.
\<close>

theorem start_column_unclamped:
  "(getTriggerSnippets gft chk rx items doc pos auto = Inr edits \<and> e \<in> set edits \<longrightarrow>
      (\<exists>p. edit_prefix e = Some p \<and> endsWith (getline doc (line pos)) p
         \<and> character (start (edit_range e)) = character pos - int (length p)
         \<and> 0 \<le> character (start (edit_range e))))
   \<and> (regex s = None \<and> prefix s = Some q \<and> character pos < int (length q) \<longrightarrow>
        pushEdit rx ln pos s rest = Inl InvalidArguments)
   \<and> getTriggerSnippets onlyItself approve literalMatch (Some [Content (storeItem ''fn'' ''go'')])
        (lineDoc (utf16 ''go'') (utf16 ''fn'')) \<lparr>line = 0, character = 0\<rparr> None
       = Inl InvalidArguments"
proof (intro conjI impI)
  assume "getTriggerSnippets gft chk rx items doc pos auto = Inr edits \<and> e \<in> set edits"
  then have "getTriggerSnippets gft chk rx items doc pos auto = Inr edits" and "e \<in> set edits"
    by blast+
  then show "\<exists>p. edit_prefix e = Some p \<and> endsWith (getline doc (line pos)) p
         \<and> character (start (edit_range e)) = character pos - int (length p)
         \<and> 0 \<le> character (start (edit_range e))"
    by (rule getTriggerSnippets_start)
next
  assume "regex s = None \<and> prefix s = Some q \<and> character pos < int (length q)"
  then show "pushEdit rx ln pos s rest = Inl InvalidArguments"
    using pushEdit_negative by blast
next
  show "getTriggerSnippets onlyItself approve literalMatch (Some [Content (storeItem ''fn'' ''go'')])
        (lineDoc (utf16 ''go'') (utf16 ''fn'')) \<lparr>line = 0, character = 0\<rparr> None
       = Inl InvalidArguments"
    by (simp add: getTriggerSnippets_def triggerEdits_def getSnippets_def mapItems_def
        arrayIncludes_def onlyItself_def triggerFilter_def getMatched_def endsWith_def slice0_def
        pushEdit_def Range_create_def isUinteger_def startCharacter_def lineDoc_def
        itemSnippet_def storeItem_def toString_def truthyBool_def truthyStr_def utf16_def Let_def)
qed

theorem start_column_unclamped_witness:
  "getTriggerSnippets onlyItself approve literalMatch (Some [Content (storeItem ''fn'' ''go'')])
      (lineDoc (utf16 ''go'') (utf16 ''  fn'')) \<lparr>line = 0, character = 4\<rparr> None
    = Inr [makeEdit \<lparr>line = 0, character = 4\<rparr> 2 (snippetOf ''fn'')]
   \<and> (\<exists>p. edit_prefix (makeEdit \<lparr>line = 0, character = 4\<rparr> 2 (snippetOf ''fn'')) = Some p
         \<and> character (start (edit_range (makeEdit \<lparr>line = 0, character = 4\<rparr> 2 (snippetOf ''fn''))))
             = 4 - int (length p))
   \<and> regex (snippetOf ''fn'') = None \<and> prefix (snippetOf ''fn'') = Some (utf16 ''fn'')
   \<and> character \<lparr>line = 0, character = 0\<rparr> < int (length (utf16 ''fn''))
   \<and> pushEdit literalMatch (utf16 ''fn'') \<lparr>line = 0, character = 0\<rparr> (snippetOf ''fn'') (Inr [])
       = Inl InvalidArguments"
proof -
  let ?D = "lineDoc (utf16 ''go'') (utf16 ''  fn'')"
  let ?P = "\<lparr>line = 0, character = 4\<rparr>"
  let ?E = "makeEdit ?P 2 (snippetOf ''fn'')"
  have run: "getTriggerSnippets onlyItself approve literalMatch
      (Some [Content (storeItem ''fn'' ''go'')]) ?D ?P None = Inr [?E]"
    by (simp add: getTriggerSnippets_def triggerEdits_def getSnippets_def mapItems_def
        arrayIncludes_def onlyItself_def triggerFilter_def getMatched_def endsWith_def slice0_def
        pushEdit_def Range_create_def isUinteger_def makeEdit_def startCharacter_def lineDoc_def
        asciiWord_def snippetOf_def itemSnippet_def storeItem_def toString_def truthyBool_def
        truthyStr_def utf16_def Let_def)
  have hyps: "regex (snippetOf ''fn'') = None \<and> prefix (snippetOf ''fn'') = Some (utf16 ''fn'')
      \<and> character \<lparr>line = 0, character = 0\<rparr> < int (length (utf16 ''fn''))"
    by (simp add: snippetOf_def itemSnippet_def storeItem_def utf16_def)
  note inst = start_column_unclamped [of onlyItself approve literalMatch
      "Some [Content (storeItem ''fn'' ''go'')]" ?D ?P None "[?E]" ?E
      "snippetOf ''fn''" "utf16 ''fn''" "utf16 ''fn''" "Inr []"]
  have mem: "?E \<in> set [?E]" by simp
  from inst run mem have "\<exists>p. edit_prefix ?E = Some p
      \<and> character (start (edit_range ?E)) = character ?P - int (length p)"
    by blast
  then have span: "\<exists>p. edit_prefix ?E = Some p
      \<and> character (start (edit_range ?E)) = 4 - int (length p)"
    by simp
  from start_column_unclamped [of onlyItself approve literalMatch
      "Some [Content (storeItem ''fn'' ''go'')]" ?D "\<lparr>line = 0, character = 0\<rparr>" None "[?E]" ?E
      "snippetOf ''fn''" "utf16 ''fn''" "utf16 ''fn''" "Inr []"] hyps
  have "pushEdit literalMatch (utf16 ''fn'') \<lparr>line = 0, character = 0\<rparr> (snippetOf ''fn'') (Inr [])
       = Inl InvalidArguments"
    by blast
  with run span hyps show ?thesis by blast
qed

text \<open>
  Claim C10 as stated says that some input yields an edit whose start character is
  negative. No input does: \<^verbatim>\<open>Range.create\<close> rejects a negative column before the edit is
  built, so an edit that is returned never starts left of column 0.
\<close>

theorem start_column_negative_counterexample:
  "\<not> (\<exists>gft chk (rx :: jsstr \<Rightarrow> jsstr \<Rightarrow> jsstr option) items doc pos auto edits e.
         getTriggerSnippets gft chk rx items doc pos auto = Inr edits \<and> e \<in> set edits
         \<and> character (start (edit_range e)) < 0)"
proof
  assume "\<exists>gft chk (rx :: jsstr \<Rightarrow> jsstr \<Rightarrow> jsstr option) items doc pos auto edits e.
         getTriggerSnippets gft chk rx items doc pos auto = Inr edits \<and> e \<in> set edits
         \<and> character (start (edit_range e)) < 0"
  then obtain gft chk and rx :: "jsstr \<Rightarrow> jsstr \<Rightarrow> jsstr option" and items doc pos auto edits e
    where run: "getTriggerSnippets gft chk rx items doc pos auto = Inr edits"
      and e: "e \<in> set edits" and neg: "character (start (edit_range e)) < 0"
    by blast
  from getTriggerSnippets_start [OF run e] have "0 \<le> character (start (edit_range e))"
    by blast
  with neg show False by simp
qed

subsection \<open>Independence of the autoTrigger field\<close>

lemma triggerFilter_autoTrigger:
  "\<not> truthyBool auto \<Longrightarrow>
   triggerFilter rx doc auto ln (s\<lparr>autoTrigger := a\<rparr>) = triggerFilter rx doc auto ln s"
proof -
  assume flag: "\<not> truthyBool auto"
  have gm: "getMatched rx (s\<lparr>autoTrigger := a\<rparr>) ln = getMatched rx s ln"
    by (simp add: getMatched_def split: option.split)
  have tk: "triggerKind (s\<lparr>autoTrigger := a\<rparr>) = triggerKind s"
    by simp
  show ?thesis
    unfolding triggerFilter_def gm tk by (simp only: flag simp_thms if_False)
qed

lemma pushEdit_autoTrigger:
  "pushEdit rx ln pos (s\<lparr>autoTrigger := a\<rparr>) r = pushEdit rx ln pos s r"
proof -
  have "startCharacter rx ln pos (s\<lparr>autoTrigger := a\<rparr>) = startCharacter rx ln pos s"
    by (simp add: startCharacter_def split: option.split)
  moreover have "makeEdit pos c (s\<lparr>autoTrigger := a\<rparr>) = makeEdit pos c s" for c
    by (simp add: makeEdit_def editOf_def)
  ultimately show ?thesis by (simp add: pushEdit_def Range_create_def isUinteger_def makeEdit_def split: sum.split)
qed

lemma walk_autoTrigger:
  "walk chk rx ln pos hc (map (\<lambda>s. s\<lparr>autoTrigger := a\<rparr>) ss) = walk chk rx ln pos hc ss"
  by (induction ss arbitrary: hc) (simp_all add: pushEdit_autoTrigger split: sum.split)

lemma arraySort_autoTrigger:
  "arraySort compareContext (map (\<lambda>s. s\<lparr>autoTrigger := a\<rparr>) ss)
     = map (\<lambda>s. s\<lparr>autoTrigger := a\<rparr>) (arraySort compareContext ss)"
  by (simp add: arraySort_compareContext filter_map comp_def)

lemma triggerEdits_autoTrigger:
  "triggerEdits chk rx (Inr (map (\<lambda>s. s\<lparr>autoTrigger := a\<rparr>) xs)) doc pos auto
     = triggerEdits chk rx (Inr xs) doc pos auto"
proof (cases "truthyBool auto")
  case True
  then show ?thesis by (simp add: triggerEdits_def)
next
  case False
  have "filter (triggerFilter rx doc auto ln) (map (\<lambda>s. s\<lparr>autoTrigger := a\<rparr>) xs)
      = map (\<lambda>s. s\<lparr>autoTrigger := a\<rparr>) (filter (triggerFilter rx doc auto ln) xs)" for ln
    by (simp add: filter_map comp_def triggerFilter_autoTrigger [OF False])
  then show ?thesis
    by (simp add: triggerEdits_def Let_def arraySort_autoTrigger walk_autoTrigger)
qed

text \<open>
  Claim C9. The edits do not depend on the \<^verbatim>\<open>autoTrigger\<close> field of any snippet: if two
  sequences of snippets, as \<^verbatim>\<open>getSnippets\<close> may supply them, agree once every
  \<^verbatim>\<open>autoTrigger\<close> field is erased, then the body of \<^verbatim>\<open>getTriggerSnippets\<close> returns the same
  result for both, for every document, position and flag. When the flag is true the
  result is empty whatever the snippets are; when it is false or absent the filter
  gives the same answer whatever the snippet's \<^verbatim>\<open>autoTrigger\<close> is. The snippets that the
  provider builds from its catalog have no \<^verbatim>\<open>autoTrigger\<close> at all.
\<close>

theorem autoTrigger_independence:
  "(map (\<lambda>s. s\<lparr>autoTrigger := None\<rparr>) xs = map (\<lambda>s. s\<lparr>autoTrigger := None\<rparr>) ys \<longrightarrow>
      triggerEdits chk rx (Inr xs) doc pos auto = triggerEdits chk rx (Inr ys) doc pos auto)
   \<and> (truthyBool auto \<longrightarrow> triggerEdits chk rx snips doc pos auto = Inr [])
   \<and> (\<not> truthyBool auto \<longrightarrow>
        triggerFilter rx doc auto ln (s\<lparr>autoTrigger := a\<rparr>) = triggerFilter rx doc auto ln s)
   \<and> (getSnippets gft items ft = Inr ss \<and> s \<in> set ss \<longrightarrow> autoTrigger s = None)"
proof (intro conjI impI)
  assume eq: "map (\<lambda>s. s\<lparr>autoTrigger := None\<rparr>) xs = map (\<lambda>s. s\<lparr>autoTrigger := None\<rparr>) ys"
  have "triggerEdits chk rx (Inr xs) doc pos auto
      = triggerEdits chk rx (Inr (map (\<lambda>s. s\<lparr>autoTrigger := None\<rparr>) xs)) doc pos auto"
    by (simp only: triggerEdits_autoTrigger)
  also have "\<dots> = triggerEdits chk rx (Inr (map (\<lambda>s. s\<lparr>autoTrigger := None\<rparr>) ys)) doc pos auto"
    by (simp only: eq)
  also have "\<dots> = triggerEdits chk rx (Inr ys) doc pos auto"
    by (simp only: triggerEdits_autoTrigger)
  finally show "triggerEdits chk rx (Inr xs) doc pos auto = triggerEdits chk rx (Inr ys) doc pos auto" .
next
  assume "truthyBool auto"
  then show "triggerEdits chk rx snips doc pos auto = Inr []"
    by (simp add: triggerEdits_def)
next
  assume "\<not> truthyBool auto"
  then show "triggerFilter rx doc auto ln (s\<lparr>autoTrigger := a\<rparr>) = triggerFilter rx doc auto ln s"
    by (rule triggerFilter_autoTrigger)
next
  assume "getSnippets gft items ft = Inr ss \<and> s \<in> set ss"
  then show "autoTrigger s = None"
    using getSnippets_fields by blast
qed

theorem autoTrigger_independence_witness:
  "map (\<lambda>s. s\<lparr>autoTrigger := None\<rparr>) [(snippetOf ''fn'')\<lparr>autoTrigger := Some True\<rparr>]
     = map (\<lambda>s. s\<lparr>autoTrigger := None\<rparr>) [(snippetOf ''fn'')\<lparr>autoTrigger := Some False\<rparr>]
   \<and> triggerEdits approve literalMatch (Inr [(snippetOf ''fn'')\<lparr>autoTrigger := Some True\<rparr>])
        (lineDoc (utf16 ''go'') (utf16 ''  fn'')) \<lparr>line = 0, character = 4\<rparr> None
     = triggerEdits approve literalMatch (Inr [(snippetOf ''fn'')\<lparr>autoTrigger := Some False\<rparr>])
        (lineDoc (utf16 ''go'') (utf16 ''  fn'')) \<lparr>line = 0, character = 4\<rparr> None
   \<and> triggerEdits approve literalMatch (Inr [(snippetOf ''fn'')\<lparr>autoTrigger := Some False\<rparr>])
        (lineDoc (utf16 ''go'') (utf16 ''  fn'')) \<lparr>line = 0, character = 4\<rparr> None
     = Inr [makeEdit \<lparr>line = 0, character = 4\<rparr> 2 (snippetOf ''fn'')]
   \<and> truthyBool (Some True)
   \<and> triggerEdits approve literalMatch (Inr [(snippetOf ''fn'')\<lparr>autoTrigger := Some True\<rparr>])
        (lineDoc (utf16 ''go'') (utf16 ''  fn'')) \<lparr>line = 0, character = 4\<rparr> (Some True) = Inr []"
proof -
  let ?D = "lineDoc (utf16 ''go'') (utf16 ''  fn'')"
  let ?P = "\<lparr>line = 0, character = 4\<rparr>"
  let ?xs = "[(snippetOf ''fn'')\<lparr>autoTrigger := Some True\<rparr>]"
  let ?ys = "[(snippetOf ''fn'')\<lparr>autoTrigger := Some False\<rparr>]"
  have eq: "map (\<lambda>s. s\<lparr>autoTrigger := None\<rparr>) ?xs = map (\<lambda>s. s\<lparr>autoTrigger := None\<rparr>) ?ys"
    by simp
  have t: "truthyBool (Some True)" by (simp add: truthyBool_def)
  have run: "triggerEdits approve literalMatch (Inr ?ys) ?D ?P None
      = Inr [makeEdit ?P 2 (snippetOf ''fn'')]"
    by (simp add: triggerEdits_def triggerFilter_def getMatched_def endsWith_def slice0_def
        pushEdit_def Range_create_def isUinteger_def makeEdit_def startCharacter_def makeEdit_def editOf_def lineDoc_def asciiWord_def snippetOf_def
        itemSnippet_def storeItem_def toString_def truthyBool_def truthyStr_def utf16_def Let_def)
  note inst1 = autoTrigger_independence [of ?xs ?ys approve literalMatch ?D ?P None]
  note inst2 = autoTrigger_independence [of ?xs ?ys approve literalMatch ?D ?P "Some True" "Inr ?xs"]
  from inst1 eq have same: "triggerEdits approve literalMatch (Inr ?xs) ?D ?P None
      = triggerEdits approve literalMatch (Inr ?ys) ?D ?P None" by blast
  from inst2 t have none: "triggerEdits approve literalMatch (Inr ?xs) ?D ?P (Some True) = Inr []"
    by blast
  from eq same run t none show ?thesis by blast
qed

subsection \<open>Filtering the catalog by file type\<close>

lemma getSnippets_defined:
  "getSnippets gft (Some its) ft
     = Inr (filter (\<lambda>s. \<exists>l. filetype s = Some l \<and> l \<in> set (gft ft)) (mapFrom 0 its))"
proof -
  have "arrayIncludes (gft ft) v = (\<exists>l. v = Some l \<and> l \<in> set (gft ft))" for v
    by (cases v) (simp_all add: arrayIncludes_def)
  then show ?thesis by (simp add: getSnippets_def mapItems_def)
qed

text \<open>
  Claim C3 does not hold of \<^verbatim>\<open>getSnippets\<close>: it keeps the snippets whose file type is
  among \<^verbatim>\<open>getFiletypes(ft)\<close> and nothing else. Whenever that list does not hold \<^verbatim>\<open>all\<close>, a
  record of language \<^verbatim>\<open>all\<close> is not returned, while \<^verbatim>\<open>getSnippetFiles\<close>, which appends
  \<^verbatim>\<open>all\<close> to the list, reports the same record.
\<close>

theorem getSnippets_misses_wildcard:
  "utf16 ''all'' \<notin> set (gft ft) \<and> language c = utf16 ''all'' \<longrightarrow>
     getSnippets gft (Some [Content c]) ft = Inr []
     \<and> getSnippetFiles gft (Some [Content c]) ft = Inr [Some (content_id c)]"
  by (simp add: getSnippets_defined getSnippetFiles_def arrayIncludes_def itemSnippet_def)

theorem getSnippets_misses_wildcard_witness:
  "utf16 ''all'' \<notin> set (onlyItself (utf16 ''go''))
   \<and> language (storeItem ''header'' ''all'') = utf16 ''all''
   \<and> getSnippets onlyItself (Some [Content (storeItem ''header'' ''all'')]) (utf16 ''go'')
       = Inr ([] :: jsstr Snippet list)
   \<and> getSnippetFiles onlyItself (Some [Content (storeItem ''header'' ''all'')]) (utf16 ''go'')
       = Inr [Some (utf16 ''id-header'')]"
proof -
  have h: "utf16 ''all'' \<notin> set (onlyItself (utf16 ''go''))
      \<and> language (storeItem ''header'' ''all'') = utf16 ''all''"
    by (simp add: onlyItself_def storeItem_def utf16_def)
  have i: "content_id (storeItem ''header'' ''all'') = utf16 ''id-header''"
    by (simp add: storeItem_def utf16_def)
  from getSnippets_misses_wildcard [of onlyItself "utf16 ''go''" "storeItem ''header'' ''all''"] h
  have "getSnippets onlyItself (Some [Content (storeItem ''header'' ''all'')]) (utf16 ''go'')
       = Inr ([] :: jsstr Snippet list)
     \<and> getSnippetFiles onlyItself (Some [Content (storeItem ''header'' ''all'')]) (utf16 ''go'')
       = Inr [Some (content_id (storeItem ''header'' ''all''))]"
    by blast
  with h i show ?thesis by simp
qed

subsection \<open>A failed initial load\<close>

lemma init_failed_items:
  "init h this = (Inl err, this1, effs) \<Longrightarrow> sniphubItems this1 = sniphubItems this"
  by (auto simp: init_def Let_def split: sum.splits prod.splits)

lemma getTriggerSnippets_undefined:
  "\<not> truthyBool auto \<Longrightarrow> getline doc (line pos) \<noteq> [] \<Longrightarrow>
   getTriggerSnippets gft chk rx None doc pos auto = Inl TypeError"
  by (simp add: getTriggerSnippets_def triggerEdits_def getSnippets_def mapItems_def)

text \<open>
  Claim C7 does not hold of the code. The constructor leaves \<^verbatim>\<open>sniphubItems\<close> undefined;
  when the first \<^verbatim>\<open>init\<close> fails, whatever the failure, the field is still undefined, and
  a matching call that is not an automatic trigger, on a line that is not empty, throws
  a \<^verbatim>\<open>TypeError\<close> (\<^verbatim>\<open>mapItems\<close> calls \<^verbatim>\<open>map\<close> on \<^verbatim>\<open>undefined\<close>) instead of returning no edits.
\<close>

theorem failed_load_matching_throws:
  "sniphubItems this = None \<and> init h this = (Inl err, this1, effs)
     \<and> \<not> truthyBool auto \<and> getline doc (line pos) \<noteq> [] \<longrightarrow>
   sniphubItems this1 = None
   \<and> getTriggerSnippets gft chk rx (sniphubItems this1) doc pos auto = Inl TypeError"
  using init_failed_items getTriggerSnippets_undefined by metis

theorem failed_load_matching_throws_witness:
  "sniphubItems newProvider = None
   \<and> fst (init (examplePlatform ConnectionError [] None) newProvider) = Inl RequestError
   \<and> \<not> truthyBool None
   \<and> getline (lineDoc (utf16 ''go'') (utf16 ''fn'')) 0 \<noteq> []
   \<and> getTriggerSnippets onlyItself approve literalMatch
        (sniphubItems (fst (snd (init (examplePlatform ConnectionError [] None) newProvider))))
        (lineDoc (utf16 ''go'') (utf16 ''fn'')) \<lparr>line = 0, character = 2\<rparr> None = Inl TypeError"
proof -
  let ?h = "examplePlatform ConnectionError [] None"
  obtain r this1 effs where i: "init ?h newProvider = (r, this1, effs)"
    by (cases "init ?h newProvider") auto
  have r: "fst (init ?h newProvider) = Inl RequestError"
    by (simp add: init_def loadAllSnippets_def promisifyHttpRequest_def withToken_def
        spreadConfig_def spreadHeaders_def examplePlatform_def newProvider_def truthyStr_def
        toString_def Let_def)
  with i have i': "init ?h newProvider = (Inl RequestError, this1, effs)" by simp
  have n: "sniphubItems newProvider = None" by (simp add: newProvider_def)
  have a: "\<not> truthyBool None" by (simp add: truthyBool_def)
  have l: "getline (lineDoc (utf16 ''go'') (utf16 ''fn'')) (line \<lparr>line = 0, character = 2\<rparr>) \<noteq> []"
    by (simp add: lineDoc_def utf16_def)
  from failed_load_matching_throws [of newProvider ?h RequestError this1 effs None
      "lineDoc (utf16 ''go'') (utf16 ''fn'')" "\<lparr>line = 0, character = 2\<rparr>" onlyItself approve
      literalMatch] n i' a l
  have "getTriggerSnippets onlyItself approve literalMatch (sniphubItems this1)
        (lineDoc (utf16 ''go'') (utf16 ''fn'')) \<lparr>line = 0, character = 2\<rparr> None = Inl TypeError"
    by blast
  with i n r a l show ?thesis by simp
qed

subsection \<open>Creating a snippet under a name that exists\<close>

lemma promisifyHttpRequest_sent:
  "promisifyHttpRequest h cfg onEnd payload = (res, effs) \<Longrightarrow> Sent r \<in> set effs \<Longrightarrow>
   req_method r = cfg_method cfg"
  by (auto simp: promisifyHttpRequest_def Let_def split: if_splits option.splits HttpReply.splits)

lemma withToken_method: "cfg_method (withToken c options) = cfg_method options"
  by (simp add: withToken_def)

lemma loadAllSnippets_sent:
  "loadAllSnippets h this = (res, effs) \<Longrightarrow> Sent r \<in> set effs \<Longrightarrow>
   req_method r = cfg_method (spreadConfig (baseHttpConfig this))"
  by (auto simp: loadAllSnippets_def Let_def withToken_method split: prod.splits
      dest!: promisifyHttpRequest_sent)

lemma init_sent:
  "init h this = (res, this1, effs) \<Longrightarrow> Sent r \<in> set effs \<Longrightarrow> req_method r = Some GET"
  by (auto simp: init_def Let_def spreadConfig_def split: sum.splits prod.splits
      dest!: loadAllSnippets_sent)

lemma list_ex_mapFrom:
  "list_ex (\<lambda>s. prefix s = nm \<and> filetype s = ft) (mapFrom k its :: 'r Snippet list)
     = (\<exists>it\<in>set its. item_name it = nm \<and> item_language it = ft)"
  by (induction k its rule: mapFrom.induct) (simp_all add: itemSnippet_def)

lemma createSnippet_duplicate:
  assumes asked: "windowRequestInput h (utf16 ''Snippet Name'') = Some nm" and "nm \<noteq> []"
    and fetched: "init h this = (Inr u, this1, effs)"
    and items: "sniphubItems this1 = Some its"
    and dup: "Content c \<in> set its" "name c = nm" "language c = doc_filetype (workspaceDocument h)"
  shows "createSnippet h this text =
     (Inr None, this1,
      RequestInput (utf16 ''Snippet Name'') # effs @
      [ShowMessage (utf16 ''Snippet with name '' @ nm @ utf16 '' for this filetype already exists'')])"
proof -
  have t: "truthyStr (Some nm)" using assms(2) by (simp add: truthyStr_def)
  have "\<exists>it\<in>set its. item_name it = Some nm
      \<and> item_language it = Some (doc_filetype (workspaceDocument h))"
    using dup by (intro bexI [of _ "Content c"]) simp_all
  then have found: "list_ex (\<lambda>it. prefix it = Some nm
      \<and> filetype it = Some (doc_filetype (workspaceDocument h))) (mapFrom 0 its :: unit Snippet list)"
    by (simp only: list_ex_mapFrom)
  show ?thesis
    by (simp add: createSnippet_def Let_def asked t fetched items mapItems_def found toString_def)
qed

lemma createSnippet_post:
  assumes "Sent r \<in> set (snd (snd (createSnippet h this text)))" and "req_method r = Some POST"
  shows "\<exists>nm u this1 effs its.
      windowRequestInput h (utf16 ''Snippet Name'') = Some nm
      \<and> init h this = (Inr u, this1, effs) \<and> sniphubItems this1 = Some its
      \<and> \<not> (\<exists>c. Content c \<in> set its \<and> name c = nm
               \<and> language c = doc_filetype (workspaceDocument h))"
proof -
  let ?nm = "windowRequestInput h (utf16 ''Snippet Name'')"
  obtain res this1 effs where i: "init h this = (res, this1, effs)"
    by (cases "init h this") auto
  have nopost: "Sent r \<notin> set effs"
    using init_sent [OF i] assms(2) by auto
  have t: "truthyStr ?nm"
    using assms(1) by (auto simp: createSnippet_def Let_def split: if_splits)
  then obtain nm where nm: "?nm = Some nm"
    by (cases ?nm) (simp_all add: truthyStr_def)
  show ?thesis
  proof (cases res)
    case (Inl err)
    with i t nopost assms(1) show ?thesis
      by (simp add: createSnippet_def Let_def)
  next
    case (Inr u)
    show ?thesis
    proof (cases "sniphubItems this1")
      case None
      with i t nopost Inr assms(1) show ?thesis
        by (simp add: createSnippet_def Let_def mapItems_def)
    next
      case (Some its)
      have "\<not> list_ex (\<lambda>it. prefix it = ?nm
          \<and> filetype it = Some (doc_filetype (workspaceDocument h))) (mapFrom 0 its :: unit Snippet list)"
      proof
        assume "list_ex (\<lambda>it. prefix it = ?nm
          \<and> filetype it = Some (doc_filetype (workspaceDocument h))) (mapFrom 0 its :: unit Snippet list)"
        with i t nopost Inr Some assms(1) show False
          by (simp add: createSnippet_def Let_def mapItems_def)
      qed
      then have "\<not> (\<exists>it\<in>set its. item_name it = Some nm
          \<and> item_language it = Some (doc_filetype (workspaceDocument h)))"
        by (simp add: list_ex_mapFrom nm)
      then have "\<not> (\<exists>c. Content c \<in> set its \<and> name c = nm
               \<and> language c = doc_filetype (workspaceDocument h))"
        by force
      with nm i Inr Some show ?thesis by blast
    qed
  qed
qed

text \<open>
  Claim C8. Let the user answer the prompt with a non-empty name, let the refresh that
  \<^verbatim>\<open>createSnippet\<close> starts with succeed, and let the refreshed catalog hold a record of
  that name whose language is the file type of the current document. Then
  \<^verbatim>\<open>createSnippet\<close> returns normally after showing the message that the snippet already
  exists; what it did is the prompt, the effects of the refresh and the message; none
  of the requests it sent is a POST; and the catalog is the refreshed one, to which
  nothing was added. Conversely, whatever the environment is, \<^verbatim>\<open>createSnippet\<close> sends a
  POST only when the refresh succeeded and no record of the refreshed catalog has that
  name and that file type.
\<close>

theorem duplicate_name_aborts:
  "(windowRequestInput h (utf16 ''Snippet Name'') = Some nm \<and> nm \<noteq> []
      \<and> init h this = (Inr u, this1, effs) \<and> sniphubItems this1 = Some its
      \<and> Content c \<in> set its \<and> name c = nm \<and> language c = doc_filetype (workspaceDocument h)
    \<longrightarrow> createSnippet h this text =
          (Inr None, this1,
           RequestInput (utf16 ''Snippet Name'') # effs @
           [ShowMessage (utf16 ''Snippet with name '' @ nm
                           @ utf16 '' for this filetype already exists'')])
        \<and> (\<forall>r. Sent r \<in> set (snd (snd (createSnippet h this text))) \<longrightarrow> req_method r = Some GET)
        \<and> sniphubItems (fst (snd (createSnippet h this text))) = Some its)
   \<and> (Sent r \<in> set (snd (snd (createSnippet h this text))) \<and> req_method r = Some POST
    \<longrightarrow> (\<exists>nm u this1 effs its.
           windowRequestInput h (utf16 ''Snippet Name'') = Some nm
           \<and> init h this = (Inr u, this1, effs) \<and> sniphubItems this1 = Some its
           \<and> \<not> (\<exists>c. Content c \<in> set its \<and> name c = nm
                    \<and> language c = doc_filetype (workspaceDocument h))))"
proof (intro conjI impI)
  assume a: "windowRequestInput h (utf16 ''Snippet Name'') = Some nm \<and> nm \<noteq> []
      \<and> init h this = (Inr u, this1, effs) \<and> sniphubItems this1 = Some its
      \<and> Content c \<in> set its \<and> name c = nm \<and> language c = doc_filetype (workspaceDocument h)"
  then have fetched: "init h this = (Inr u, this1, effs)" and items: "sniphubItems this1 = Some its"
    by blast+
  from a have run: "createSnippet h this text =
          (Inr None, this1,
           RequestInput (utf16 ''Snippet Name'') # effs @
           [ShowMessage (utf16 ''Snippet with name '' @ nm
                           @ utf16 '' for this filetype already exists'')])"
    by (intro createSnippet_duplicate) blast+
  then show "createSnippet h this text =
          (Inr None, this1,
           RequestInput (utf16 ''Snippet Name'') # effs @
           [ShowMessage (utf16 ''Snippet with name '' @ nm
                           @ utf16 '' for this filetype already exists'')])" .
  show "\<forall>r. Sent r \<in> set (snd (snd (createSnippet h this text))) \<longrightarrow> req_method r = Some GET"
    using init_sent [OF fetched] by (auto simp: run)
  show "sniphubItems (fst (snd (createSnippet h this text))) = Some its"
    by (simp add: run items)
next
  assume "Sent r \<in> set (snd (snd (createSnippet h this text))) \<and> req_method r = Some POST"
  then show "\<exists>nm u this1 effs its.
           windowRequestInput h (utf16 ''Snippet Name'') = Some nm
           \<and> init h this = (Inr u, this1, effs) \<and> sniphubItems this1 = Some its
           \<and> \<not> (\<exists>c. Content c \<in> set its \<and> name c = nm
                    \<and> language c = doc_filetype (workspaceDocument h))"
    using createSnippet_post by blast
qed

theorem duplicate_name_aborts_witness:
  "windowRequestInput (examplePlatform (Response 200 [[1]]) [storeItem ''fn'' ''go''] (Some (utf16 ''fn'')))
      (utf16 ''Snippet Name'') = Some (utf16 ''fn'')
   \<and> utf16 ''fn'' \<noteq> []
   \<and> fst (init (examplePlatform (Response 200 [[1]]) [storeItem ''fn'' ''go''] (Some (utf16 ''fn'')))
        newProvider) = Inr ()
   \<and> name (storeItem ''fn'' ''go'') = utf16 ''fn''
   \<and> language (storeItem ''fn'' ''go'')
       = doc_filetype (workspaceDocument
           (examplePlatform (Response 200 [[1]]) [storeItem ''fn'' ''go''] (Some (utf16 ''fn''))))
   \<and> fst (createSnippet
        (examplePlatform (Response 200 [[1]]) [storeItem ''fn'' ''go''] (Some (utf16 ''fn'')))
        newProvider None) = Inr None
   \<and> last (snd (snd (createSnippet
        (examplePlatform (Response 200 [[1]]) [storeItem ''fn'' ''go''] (Some (utf16 ''fn'')))
        newProvider None)))
       = ShowMessage (utf16 ''Snippet with name fn for this filetype already exists'')
   \<and> sniphubItems (fst (snd (createSnippet
        (examplePlatform (Response 200 [[1]]) [storeItem ''fn'' ''go''] (Some (utf16 ''fn'')))
        newProvider None)))
       = Some [Content (storeItem ''fn'' ''go'')]"
proof -
  let ?h = "examplePlatform (Response 200 [[1]]) [storeItem ''fn'' ''go''] (Some (utf16 ''fn''))"
  obtain u this1 effs where i: "init ?h newProvider = (u, this1, effs)"
    by (cases "init ?h newProvider") auto
  have "fst (init ?h newProvider) = Inr ()
      \<and> sniphubItems (fst (snd (init ?h newProvider))) = Some [Content (storeItem ''fn'' ''go'')]"
    by (simp add: init_def loadAllSnippets_def promisifyHttpRequest_def withToken_def
        spreadConfig_def spreadHeaders_def examplePlatform_def newProvider_def truthyStr_def
        toString_def Let_def)
  with i have ok: "init ?h newProvider = (Inr (), this1, effs)"
    and items: "sniphubItems this1 = Some [Content (storeItem ''fn'' ''go'')]"
    by simp_all
  have asked: "windowRequestInput ?h (utf16 ''Snippet Name'') = Some (utf16 ''fn'')"
    and ne: "utf16 ''fn'' \<noteq> []"
    and nm: "name (storeItem ''fn'' ''go'') = utf16 ''fn''"
    and lang: "language (storeItem ''fn'' ''go'') = doc_filetype (workspaceDocument ?h)"
    by (simp_all add: examplePlatform_def storeItem_def lineDoc_def utf16_def)
  have mem: "Content (storeItem ''fn'' ''go'') \<in> set [Content (storeItem ''fn'' ''go'')]"
    by simp
  from duplicate_name_aborts [of ?h "utf16 ''fn''" newProvider "()" this1 effs
      "[Content (storeItem ''fn'' ''go'')]" "storeItem ''fn'' ''go''" None]
    asked ne ok items mem nm lang
  have run: "createSnippet ?h newProvider None =
          (Inr None, this1,
           RequestInput (utf16 ''Snippet Name'') # effs @
           [ShowMessage (utf16 ''Snippet with name '' @ utf16 ''fn''
                           @ utf16 '' for this filetype already exists'')])"
    by blast
  have msg: "utf16 ''Snippet with name '' @ utf16 ''fn'' @ utf16 '' for this filetype already exists''
      = utf16 ''Snippet with name fn for this filetype already exists''"
    by (simp add: utf16_def)
  from run i ok items msg have "fst (createSnippet ?h newProvider None) = Inr None
      \<and> last (snd (snd (createSnippet ?h newProvider None)))
          = ShowMessage (utf16 ''Snippet with name fn for this filetype already exists'')
      \<and> sniphubItems (fst (snd (createSnippet ?h newProvider None)))
          = Some [Content (storeItem ''fn'' ''go'')]"
    by simp
  with asked ne ok nm lang show ?thesis by simp
qed

end
